theory Spec2Isabelle
  imports Complex_Main "HOL-Library.AList"
begin

section \<open>Python values and exceptions\<close>

text \<open>
  The exceptions the modelled code can raise. A function of the source that can raise
  returns \<open>py_error + 'a\<close>, with \<open>Inl\<close> for the exception.
\<close>

datatype py_error =
  IndexError | KeyError | TypeError | AttributeError | ZeroDivisionError | OverflowError | ValueError

text \<open>
  Python's \<open>int(x)\<close> on a finite float truncates towards zero. Where no result
  depends on the rounding (the arguments of an OSC message, the times of a wait) floats
  are idealised as reals; the beat count of the timer, which does depend on it, has the
  floats of the section on timer.py.
\<close>

definition py_int :: "real \<Rightarrow> int" where
  "py_int x = (if 0 \<le> x then \<lfloor>x\<rfloor> else \<lceil>x\<rceil>)"

section \<open>timer.py\<close>

text \<open>
  The part of the engine a \<open>Timer\<close> reads (\<open>self.engine.current_time\<close>,
  \<open>self.engine.tempo\<close>, \<open>self.engine.tempo_map\<close>). Times are nanoseconds. An
  entry of the tempo map is \<open>(time, tempo, cycle length)\<close>.
\<close>

record engine_time =
  current_time :: real
  tempo :: real
  tempo_map :: "(real \<times> real \<times> real) list"

record timer =
  start_time :: real
  tempo :: real
  end_time :: real
  is_beat_waiting :: bool

text \<open>\<open>Timer.update_tempo\<close> (timer.py, lines 32-48). Both divisions raise on zero.\<close>

definition update_tempo :: "engine_time \<Rightarrow> timer \<Rightarrow> py_error + timer" where
  "update_tempo e t =
     (let new_tempo = engine_time.tempo e in
      if is_beat_waiting t then
        (let remaining_time = end_time t - current_time e in
         if timer.tempo t = 0 then Inl ZeroDivisionError
         else
           (let tempo_ratio = new_tempo / timer.tempo t in
            if tempo_ratio = 0 then Inl ZeroDivisionError
            else Inr (t\<lparr>end_time := current_time e + remaining_time / tempo_ratio,
                          tempo := new_tempo\<rparr>)))
      else Inr (t\<lparr>tempo := new_tempo\<rparr>))"

text \<open>
  \<open>Timer.wait\<close> (timer.py, lines 50-75), in three parts. \<open>wait_duration\<close> is the
  conversion of lines 54-63: \<open>Inr None\<close> is the early return on an unrecognised
  mode, \<open>mode[0]\<close> raises on the empty string, and the beat conversion divides by
  the timer's tempo.
\<close>

definition wait_duration :: "timer \<Rightarrow> real \<Rightarrow> string \<Rightarrow> py_error + real option" where
  "wait_duration t duration mode =
     (case mode of
        [] \<Rightarrow> Inl IndexError
      | c # _ \<Rightarrow>
          if c = CHR ''b'' then
            (if timer.tempo t = 0 then Inl ZeroDivisionError
             else Inr (Some (duration * 60 / timer.tempo t * 1000000000)))
          else if c = CHR ''s'' then Inr (Some (duration * 1000000000))
          else if mode = ''ns'' then Inr (Some duration)
          else Inr None)"

text \<open>
  Lines 65-68: the state of the timer while it waits, which is what
  \<open>update_tempo\<close> sees from the engine's side.
\<close>

definition wait_start :: "timer \<Rightarrow> real \<Rightarrow> string \<Rightarrow> timer" where
  "wait_start t d mode =
     (let t1 = t\<lparr>end_time := start_time t + d\<rparr> in
      if hd mode = CHR ''b'' then t1\<lparr>is_beat_waiting := True\<rparr> else t1)"

text \<open>
  Lines 70-71: the polling loop. The engine runs in a thread of its own: between two
  evaluations of the loop condition it advances its clock and, when its tempo has
  changed, calls \<open>update_tempo\<close> on the timer, which rewrites \<open>self.end_time\<close>
  while \<open>is_beat_waiting\<close> is set. The condition reads \<open>self.end_time\<close> anew each
  time. An \<open>observation\<close> is what one evaluation of the condition meets: the engine
  states at which \<open>update_tempo\<close> has run since the evaluation before (oldest first),
  and the value of \<open>self.engine.current_time\<close> this evaluation reads.

  An \<open>update_tempo\<close> that raises does so in the engine's thread, on a division that
  comes before both assignments: the timer is left as it was.
\<close>

type_synonym observation = "engine_time list \<times> real"

definition apply_update :: "engine_time \<Rightarrow> timer \<Rightarrow> timer" where
  "apply_update e t = (case update_tempo e t of Inr t' \<Rightarrow> t' | Inl err \<Rightarrow> t)"

definition apply_updates :: "engine_time list \<Rightarrow> timer \<Rightarrow> timer" where
  "apply_updates es t = fold apply_update es t"

text \<open>
  \<open>wait_loop\<close> carries the timer through the loop; \<open>k\<close> counts the evaluations of
  the condition. The result is the number of sleeps and the timer at the exit. A run in
  which the clock never reaches the bound keeps the loop going: the value is \<open>None\<close>.
\<close>

partial_function (option) wait_loop ::
  "real \<Rightarrow> (nat \<Rightarrow> observation) \<Rightarrow> nat \<Rightarrow> timer \<Rightarrow> (nat \<times> timer) option" where
  "wait_loop MAINLOOP_PERIOD_NS env k t =
     (let t' = apply_updates (fst (env k)) t in
      if snd (env k) < end_time t' - MAINLOOP_PERIOD_NS
      then wait_loop MAINLOOP_PERIOD_NS env (Suc k) t'
      else Some (k, t'))"

text \<open>
  Lines 73-75, from the timer \<open>t2\<close> the loop ends with. \<open>late\<close> are the calls of
  \<open>update_tempo\<close> that fall between the last evaluation of the condition and line
  73, where the flag is cleared (a later one finds the flag cleared and leaves the end
  time alone). Line 75 reads \<open>self.end_time\<close> as it is then.
\<close>

definition wait_end :: "engine_time list \<Rightarrow> timer \<Rightarrow> timer" where
  "wait_end late t2 =
     (let t3 = apply_updates late t2;
          t4 = t3\<lparr>is_beat_waiting := False\<rparr>
      in t4\<lparr>start_time := end_time t4\<rparr>)"

text \<open>
  The whole of \<open>Timer.wait\<close>. \<open>MAINLOOP_PERIOD_NS\<close> comes from config.py, which
  is not among the sources: it is an argument. \<open>env\<close> is the run of the engine the loop
  observes. Lines 65-68 are one step, \<open>wait_start\<close>. \<open>None\<close> means the call never
  returns.
\<close>

definition wait ::
  "real \<Rightarrow> (nat \<Rightarrow> observation) \<Rightarrow> engine_time list \<Rightarrow> timer \<Rightarrow> real \<Rightarrow> string
     \<Rightarrow> (py_error + timer) option" where
  "wait MAINLOOP_PERIOD_NS env late t duration mode =
     (case wait_duration t duration mode of
        Inl e \<Rightarrow> Some (Inl e)
      | Inr None \<Rightarrow> Some (Inr t)
      | Inr (Some d) \<Rightarrow>
          (case wait_loop MAINLOOP_PERIOD_NS env 0 (wait_start t d mode) of
             None \<Rightarrow> None
           | Some (k, t2) \<Rightarrow> Some (Inr (wait_end late t2))))"

text \<open>
  The timer as the evaluations of the loop condition find it: \<open>timer_before env t k\<close>
  is the timer after the updates of the evaluations before the \<open>k\<close>-th, \<open>timer_at\<close>
  the one the \<open>k\<close>-th evaluation reads, and \<open>due\<close> says that this evaluation ends
  the loop (\<open>current_time \<ge> end_time - MAINLOOP_PERIOD_NS\<close>).
\<close>

fun timer_before :: "(nat \<Rightarrow> observation) \<Rightarrow> timer \<Rightarrow> nat \<Rightarrow> timer" where
  "timer_before env t 0 = t"
| "timer_before env t (Suc k) = apply_updates (fst (env k)) (timer_before env t k)"

definition timer_at :: "(nat \<Rightarrow> observation) \<Rightarrow> timer \<Rightarrow> nat \<Rightarrow> timer" where
  "timer_at env t k = timer_before env t (Suc k)"

definition due :: "real \<Rightarrow> (nat \<Rightarrow> observation) \<Rightarrow> timer \<Rightarrow> nat \<Rightarrow> bool" where
  "due MAINLOOP_PERIOD_NS env t k =
     (end_time (timer_at env t k) - MAINLOOP_PERIOD_NS \<le> snd (env k))"

text \<open>
  The beats left in a wait that ends at \<open>end_time\<close>, counted at the timer's tempo
  (nanoseconds to seconds, seconds to minutes, minutes to beats).
\<close>

definition remaining_beats :: "real \<Rightarrow> timer \<Rightarrow> real" where
  "remaining_beats now t = (end_time t - now) / 1000000000 / 60 * timer.tempo t"

subsection \<open>Python floats\<close>











subsection \<open>The current beat\<close>











section \<open>midi.py\<close>

text \<open>
  The values the MIDI and module code handles: \<open>None\<close>, integers, strings, lists.
\<close>

datatype pyval = VNone | VInt int | VStr string | VList "pyval list"

text \<open>
  The event types of pyalsa's \<open>alsaseq\<close> that midi.py names; every other type is
  \<open>SEQ_EVENT_OTHER\<close>.
\<close>

datatype seq_event_type =
    SEQ_EVENT_NOTEON | SEQ_EVENT_NOTEOFF | SEQ_EVENT_CONTROLLER | SEQ_EVENT_PGMCHANGE
  | SEQ_EVENT_PITCHBEND | SEQ_EVENT_SYSEX | SEQ_EVENT_START | SEQ_EVENT_STOP
  | SEQ_EVENT_OTHER nat

text \<open>
  An \<open>alsaseq.SeqEvent\<close>: its type and its data dictionary, which is what
  \<open>get_data()\<close> returns and what \<open>set_data(...)\<close> has stored (a fresh event has
  stored nothing).
\<close>

record seq_event =
  type :: seq_event_type
  data :: "(string \<times> pyval) list"

text \<open>The dictionary \<open>osc\<close> that \<open>midi_to_osc\<close> returns.\<close>

record osc =
  address :: string
  args :: pyval

text \<open>
  An argument of an incoming OSC message: an integer, a float (idealised as a real),
  \<open>None\<close>, or a tuple such as \<open>(typetag, value)\<close>.
\<close>

datatype osc_arg = OInt int | OFloat real | ONone | OTuple "osc_arg list"

definition MIDI_TO_OSC :: "(seq_event_type \<times> string) list" where
  "MIDI_TO_OSC =
     [(SEQ_EVENT_NOTEON, ''/note_on''),
      (SEQ_EVENT_NOTEOFF, ''/note_off''),
      (SEQ_EVENT_CONTROLLER, ''/control_change''),
      (SEQ_EVENT_PGMCHANGE, ''/program_change''),
      (SEQ_EVENT_PITCHBEND, ''/pitch_bend''),
      (SEQ_EVENT_SYSEX, ''/sysex''),
      (SEQ_EVENT_START, ''/start''),
      (SEQ_EVENT_STOP, ''/stop'')]"

definition OSC_TO_MIDI :: "(string \<times> seq_event_type) list" where
  "OSC_TO_MIDI =
     [(''/note_on'', SEQ_EVENT_NOTEON),
      (''/note_off'', SEQ_EVENT_NOTEOFF),
      (''/control_change'', SEQ_EVENT_CONTROLLER),
      (''/program_change'', SEQ_EVENT_PGMCHANGE),
      (''/pitch_bend'', SEQ_EVENT_PITCHBEND),
      (''/sysex'', SEQ_EVENT_SYSEX),
      (''/start'', SEQ_EVENT_START),
      (''/stop'', SEQ_EVENT_STOP)]"

text \<open>\<open>d[k]\<close> on a dictionary and \<open>xs[i]\<close> on a list, with their exceptions.\<close>

definition subscript :: "('k \<times> 'v) list \<Rightarrow> 'k \<Rightarrow> py_error + 'v" where
  "subscript d k = (case map_of d k of None \<Rightarrow> Inl KeyError | Some v \<Rightarrow> Inr v)"

definition item :: "'a list \<Rightarrow> nat \<Rightarrow> py_error + 'a" where
  "item xs i = (if i < length xs then Inr (xs ! i) else Inl IndexError)"

text \<open>
  A list display \<open>[e1, e2, ...]\<close> whose elements can raise: evaluated from left to
  right, the first exception wins.
\<close>

fun sequence :: "(py_error + 'a) list \<Rightarrow> py_error + 'a list" where
  "sequence [] = Inr []"
| "sequence (Inl e # rs) = Inl e"
| "sequence (Inr x # rs) = (case sequence rs of Inl e \<Rightarrow> Inl e | Inr xs \<Rightarrow> Inr (x # xs))"

text \<open>\<open>midi_to_osc\<close> (midi.py, lines 40-66).\<close>

definition midi_to_osc :: "seq_event \<Rightarrow> py_error + osc option" where
  "midi_to_osc event =
     (let mtype = type event in
      case map_of MIDI_TO_OSC mtype of
        None \<Rightarrow> Inr None
      | Some addr \<Rightarrow>
          (let d = data event;
               osc_args =
                 (if mtype = SEQ_EVENT_NOTEON then
                    map_sum id VList (sequence [subscript d ''note.channel'', subscript d ''note.note'',
                                                subscript d ''note.velocity''])
                  else if mtype = SEQ_EVENT_NOTEOFF then
                    map_sum id VList (sequence [subscript d ''note.channel'', subscript d ''note.note'',
                                                Inr (VInt 0)])
                  else if mtype \<in> {SEQ_EVENT_PITCHBEND, SEQ_EVENT_PGMCHANGE} then
                    map_sum id VList (sequence [subscript d ''control.channel'', subscript d ''control.value''])
                  else if mtype = SEQ_EVENT_SYSEX then subscript d ''ext''
                  else if mtype = SEQ_EVENT_CONTROLLER then
                    map_sum id VList (sequence [subscript d ''control.channel'', subscript d ''control.param'',
                                                subscript d ''control.value''])
                  else Inr (VList []))
           in case osc_args of
                Inl e \<Rightarrow> Inl e
              | Inr a \<Rightarrow> Inr (Some \<lparr>osc.address = addr, args = a\<rparr>)))"

text \<open>
  \<open>osc_to_midi\<close> (midi.py, lines 68-95). \<open>untuple\<close> is
  \<open>arg[1] if type(arg) is tuple else arg\<close>; \<open>to_int\<close> is \<open>int(x)\<close>, which is
  never reached with \<open>None\<close> and raises on a tuple.
\<close>

definition untuple :: "osc_arg \<Rightarrow> py_error + osc_arg" where
  "untuple arg = (case arg of OTuple xs \<Rightarrow> item xs 1 | _ \<Rightarrow> Inr arg)"

definition is_int :: "osc_arg \<Rightarrow> bool" where
  "is_int arg = (case arg of OInt n \<Rightarrow> True | _ \<Rightarrow> False)"

definition to_int :: "osc_arg \<Rightarrow> py_error + int" where
  "to_int arg = (case arg of OInt n \<Rightarrow> Inr n | OFloat x \<Rightarrow> Inr (py_int x) | _ \<Rightarrow> Inl TypeError)"

definition set_data :: "seq_event_type \<Rightarrow> int list \<Rightarrow> py_error + (string \<times> pyval) list" where
  "set_data mtype ints =
     (let arg = (\<lambda>i. map_sum id VInt (item ints i)) in
      if mtype = SEQ_EVENT_NOTEON then
        map_sum id (zip [''note.channel'', ''note.note'', ''note.velocity'']) (sequence [arg 0, arg 1, arg 2])
      else if mtype = SEQ_EVENT_NOTEOFF then
        map_sum id (zip [''note.channel'', ''note.note'']) (sequence [arg 0, arg 1])
      else if mtype = SEQ_EVENT_PITCHBEND \<or> mtype = SEQ_EVENT_PGMCHANGE then
        map_sum id (zip [''control.channel'', ''control.value'']) (sequence [arg 0, arg 1])
      else if mtype = SEQ_EVENT_SYSEX then Inr [(''ext'', VList (map VInt ints))]
      else if mtype = SEQ_EVENT_CONTROLLER then
        map_sum id (zip [''control.channel'', ''control.param'', ''control.value''])
          (sequence [arg 0, arg 1, arg 2])
      else Inr [])"

definition osc_to_midi :: "string \<Rightarrow> osc_arg list \<Rightarrow> py_error + seq_event option" where
  "osc_to_midi addr arguments =
     (case map_of OSC_TO_MIDI addr of
        None \<Rightarrow> Inr None
      | Some mtype \<Rightarrow>
          (case sequence (map untuple arguments) of
             Inl e \<Rightarrow> Inl e
           | Inr args1 \<Rightarrow>
               if ONone \<in> set args1 then Inr None
               else
                 (case (if \<not> list_all is_int args1 then sequence (map to_int args1)
                        else Inr (map (\<lambda>a. case a of OInt n \<Rightarrow> n | _ \<Rightarrow> 0) args1)) of
                    Inl e \<Rightarrow> Inl e
                  | Inr ints \<Rightarrow>
                      (case set_data mtype ints of
                         Inl e \<Rightarrow> Inl e
                       | Inr d \<Rightarrow> Inr (Some \<lparr>type = mtype, data = d\<rparr>)))))"

section \<open>module.py\<close>

text \<open>
  Logging is not modelled: a call that only logs an error leaves the state as it was.
  Truth of a value, as \<open>if x:\<close> tests it.
\<close>

fun truthy :: "pyval \<Rightarrow> bool" where
  "truthy VNone = False"
| "truthy (VInt n) = (n \<noteq> 0)"
| "truthy (VStr s) = (s \<noteq> [])"
| "truthy (VList xs) = (xs \<noteq> [])"

subsection \<open>Parameter and Mapping\<close>

text \<open>
  Modelled from the spec: the class \<open>Parameter\<close> of parameter.py, which is not among
  the sources. Its attributes follow section 3 of the specification and the uses in
  module.py: the name, the optional wire address, the static values, the default, the
  current dynamic values \<open>args\<close> (one per dynamic slot), the dirty flag, the last
  transmitted snapshot and whether an animation runs. The type tags are kept as what
  they do: \<open>cast i v\<close> is the coercion of the value \<open>v\<close> to the tag of the
  \<open>i\<close>-th dynamic slot.
\<close>

record parameter =
  name :: string
  address :: pyval
  static_args :: "pyval list"
  cast :: "nat \<Rightarrow> pyval \<Rightarrow> pyval"
  default :: pyval
  args :: "pyval list"
  dirty :: bool
  last_sent :: "pyval list option"
  animate_running :: bool

text \<open>
  Modelled from the spec: \<open>Parameter.set\<close> (specification, 4.1). A call with the
  wrong number of values does nothing; otherwise each value is coerced to its slot's
  tag and stored, and the result tells whether a slot's value differs from the one
  before.
\<close>

definition parameter_set :: "pyval list \<Rightarrow> parameter \<Rightarrow> bool \<times> parameter" where
  "parameter_set vs p =
     (if length vs \<noteq> length (parameter.args p) then (False, p)
      else
        (let new = map (\<lambda>(i, v). cast p i v) (enumerate 0 vs) in
         (new \<noteq> parameter.args p, p\<lparr>parameter.args := new\<rparr>)))"

text \<open>
  Modelled from the spec: \<open>Parameter.get\<close> (the single value, or the list of
  values), the message arguments (static values, then dynamic ones),
  \<open>set_last_sent\<close> and \<open>stop_animation\<close>.
\<close>

definition parameter_get :: "parameter \<Rightarrow> pyval" where
  "parameter_get p = (case parameter.args p of [v] \<Rightarrow> v | vs \<Rightarrow> VList vs)"

definition get_message_args :: "parameter \<Rightarrow> pyval list" where
  "get_message_args p = static_args p @ parameter.args p"

definition set_last_sent :: "parameter \<Rightarrow> parameter" where
  "set_last_sent p = p\<lparr>last_sent := Some (get_message_args p)\<rparr>"

definition stop_animation :: "parameter \<Rightarrow> parameter" where
  "stop_animation p = p\<lparr>animate_running := False\<rparr>"

text \<open>
  Modelled from the spec: the class \<open>Mapping\<close> of parameter.py (specification, 3 and
  4.2). Source and destination addresses are paths of names; \<open>n_args\<close> is the number
  of destinations; \<open>lock()\<close> succeeds only on an unlocked mapping.
\<close>

record mapping =
  src :: "string list list"
  dest :: "string list list"
  transform :: "pyval list \<Rightarrow> pyval"
  locked :: bool

definition n_args :: "mapping \<Rightarrow> nat" where
  "n_args mp = length (dest mp)"

definition lock :: "mapping \<Rightarrow> bool \<times> mapping" where
  "lock mp = (if locked mp then (False, mp) else (True, mp\<lparr>locked := True\<rparr>))"

definition unlock :: "mapping \<Rightarrow> mapping" where
  "unlock mp = mp\<lparr>locked := False\<rparr>"

subsection \<open>Module and engine\<close>

text \<open>
  The attributes of a \<open>Module\<close> that the modelled methods use (module.py, lines
  65-97). The dirty buffer \<open>dirty_parameters\<close> holds parameters by name. A module is
  its own attributes and the dictionary of its submodules, in insertion order.
\<close>

record module_state =
  name :: string
  module_path :: "string list"
  protocol :: pyval
  port :: pyval
  parameters :: "(string \<times> parameter) list"
  animations :: "string list"
  mappings :: "mapping list"
  dirty_parameters :: "string list"
  dirty :: bool
  aliases :: "(string \<times> string) list"

datatype module = Module (state: module_state) (submodules: "(string \<times> module) list")

text \<open>
  The engine as module.py uses it: the clock and tempo above, the queue of dirty modules
  (held by their path) and the queue of outgoing messages.
\<close>

record engine = engine_time +
  dirty_modules :: "string list list"
  message_queue :: "pyval list list"

text \<open>
  What a method reads of \<open>self.parent_module\<close>: the parent's protocol and port, or
  \<open>None\<close> for the root.
\<close>

type_synonym parent = "(pyval \<times> pyval) option"

definition as_parent :: "module_state \<Rightarrow> parent" where
  "as_parent s = Some (protocol s, port s)"

text \<open>\<open>d[k] = v\<close> on a dictionary: in place for a key it has, at the end otherwise.\<close>

definition store :: "'k \<Rightarrow> 'v \<Rightarrow> ('k \<times> 'v) list \<Rightarrow> ('k \<times> 'v) list" where
  "store k v d = AList.update k v d"

text \<open>\<open>Module.send\<close> (module.py, lines 730-750).\<close>

definition send :: "module_state \<Rightarrow> parent \<Rightarrow> pyval \<Rightarrow> pyval list \<Rightarrow> engine \<Rightarrow> engine" where
  "send s par addr arguments e =
     (let (proto, prt) =
            (case par of
               Some (pproto, pport) \<Rightarrow> if \<not> truthy (port s) then (pproto, pport) else (protocol s, port s)
             | None \<Rightarrow> (protocol s, port s))
      in if truthy prt
         then e\<lparr>message_queue := message_queue e @ [[proto, prt, addr] @ arguments]\<rparr>
         else e)"

text \<open>\<open>Module.set_dirty\<close> (module.py, lines 701-707).\<close>

definition set_dirty :: "module_state \<Rightarrow> engine \<Rightarrow> module_state \<times> engine" where
  "set_dirty s e =
     (if \<not> module_state.dirty s
      then (s\<lparr>module_state.dirty := True\<rparr>, e\<lparr>dirty_modules := dirty_modules e @ [module_path s]\<rparr>)
      else (s, e))"

subsection \<open>The decorator submodule_method\<close>

text \<open>
  Modelled from the spec: pattern expansion over submodule names (utils.py is not among
  the sources; specification, 4.3: a wildcard, or a bracketed range). A name is a
  pattern when it holds \<open>*\<close> or \<open>[\<close>, the two characters module names may not hold
  (module.py, line 67). \<open>*\<close> stands for any run of characters, \<open>[...]\<close> for one
  character of the listed ones or of a range \<open>a-b\<close>.
\<close>

definition is_pattern :: "string \<Rightarrow> bool" where
  "is_pattern n = (CHR ''*'' \<in> set n \<or> CHR ''['' \<in> set n)"

fun in_class :: "string \<Rightarrow> char \<Rightarrow> bool" where
  "in_class (a # m # b # rest) c =
     (if m = CHR ''-'' then (of_char a \<le> (of_char c :: nat) \<and> of_char c \<le> (of_char b :: nat)) \<or> in_class rest c
      else a = c \<or> in_class (m # b # rest) c)"
| "in_class (a # rest) c = (a = c \<or> in_class rest c)"
| "in_class [] c = False"

function pattern_match :: "string \<Rightarrow> string \<Rightarrow> bool" where
  "pattern_match [] s = (s = [])"
| "pattern_match (c # p) s =
     (if c = CHR ''*'' then
        pattern_match p s \<or> (case s of [] \<Rightarrow> False | _ # s' \<Rightarrow> pattern_match (c # p) s')
      else if c = CHR ''['' \<and> CHR '']'' \<in> set p then
        (case s of
           [] \<Rightarrow> False
         | d # s' \<Rightarrow> in_class (takeWhile (\<lambda>x. x \<noteq> CHR '']'') p) d
                     \<and> pattern_match (tl (dropWhile (\<lambda>x. x \<noteq> CHR '']'') p)) s')
      else (case s of [] \<Rightarrow> False | d # s' \<Rightarrow> c = d \<and> pattern_match p s'))"
  by pat_completeness auto
termination
  apply (relation "measure (\<lambda>(p, s). length p + length s)")
      apply auto
  subgoal for p
    using length_dropWhile_le [of "\<lambda>x. x \<noteq> CHR '']''" p] by arith
  done

text \<open>
  Modelled from the spec: which submodules a decorated method is passed on to
  (specification, 4.3). The first argument, after the alias table, names a submodule,
  or (for a method with pattern matching) is a pattern over the submodule names; the
  result is the selection of submodule names, or \<open>None\<close> when the method runs on the
  module itself. With no argument at all, \<open>args[0]\<close> raises.
\<close>

definition submodule_target ::
  "bool \<Rightarrow> module_state \<Rightarrow> string list \<Rightarrow> pyval list \<Rightarrow> py_error + (string \<Rightarrow> bool) option" where
  "submodule_target pattern_matching s names arguments =
     (case arguments of
        [] \<Rightarrow> Inl IndexError
      | VStr n0 # _ \<Rightarrow>
          (let n = (case map_of (aliases s) n0 of Some a \<Rightarrow> a | None \<Rightarrow> n0) in
           if n \<in> set names then Inr (Some (\<lambda>k. k = n))
           else if pattern_matching \<and> is_pattern n then Inr (Some (pattern_match n))
           else Inr None)
      | _ # _ \<Rightarrow> Inr None)"

text \<open>
  Modelled from the spec: the decorator itself. A call whose first argument selects
  submodules is passed to each of them, in the dictionary's order, with the remaining
  arguments; every other call runs the method's own body on the module. \<open>x\<close> is what
  the method threads through: the engine, or the returned value.
\<close>

fun submodule_method ::
    "bool \<Rightarrow> (module \<Rightarrow> parent \<Rightarrow> pyval list \<Rightarrow> 'x \<Rightarrow> py_error + module \<times> 'x) \<Rightarrow>
     module \<Rightarrow> parent \<Rightarrow> pyval list \<Rightarrow> 'x \<Rightarrow> py_error + module \<times> 'x"
  and submodule_method_each ::
    "bool \<Rightarrow> (module \<Rightarrow> parent \<Rightarrow> pyval list \<Rightarrow> 'x \<Rightarrow> py_error + module \<times> 'x) \<Rightarrow>
     (string \<Rightarrow> bool) \<Rightarrow> (string \<times> module) list \<Rightarrow> parent \<Rightarrow> pyval list \<Rightarrow> 'x \<Rightarrow>
     py_error + (string \<times> module) list \<times> 'x"
where
  "submodule_method pm body (Module s subs) par arguments x =
     (case submodule_target pm s (map fst subs) arguments of
        Inl err \<Rightarrow> Inl err
      | Inr None \<Rightarrow> body (Module s subs) par arguments x
      | Inr (Some sel) \<Rightarrow>
          (case submodule_method_each pm body sel subs (as_parent s) (tl arguments) x of
             Inl err \<Rightarrow> Inl err
           | Inr (subs', x') \<Rightarrow> Inr (Module s subs', x')))"
| "submodule_method_each pm body sel [] par arguments x = Inr ([], x)"
| "submodule_method_each pm body sel ((n, m) # rest) par arguments x =
     (if sel n then
        (case submodule_method pm body m par arguments x of
           Inl err \<Rightarrow> Inl err
         | Inr (m', x') \<Rightarrow>
             (case submodule_method_each pm body sel rest par arguments x' of
                Inl err \<Rightarrow> Inl err
              | Inr (rest', x'') \<Rightarrow> Inr ((n, m') # rest', x'')))
      else
        (case submodule_method_each pm body sel rest par arguments x of
           Inl err \<Rightarrow> Inl err
         | Inr (rest', x') \<Rightarrow> Inr ((n, m) # rest', x')))"

subsection \<open>get, set, reset\<close>

text \<open>
  \<open>name in self.parameters\<close> and \<open>self.parameters[name]\<close> for a first argument of
  any type: a list cannot be a key (\<open>TypeError\<close>), a string is looked up, anything
  else is not there.
\<close>

definition find_parameter :: "module_state \<Rightarrow> pyval \<Rightarrow> py_error + (string \<times> parameter) option" where
  "find_parameter s key =
     (case key of
        VList _ \<Rightarrow> Inl TypeError
      | VStr n \<Rightarrow> Inr (map_option (Pair n) (map_of (parameters s) n))
      | _ \<Rightarrow> Inr None)"

text \<open>The body of \<open>Module.get\<close> (module.py, lines 220-227); \<open>x\<close> is the value returned.\<close>

fun get_body :: "module \<Rightarrow> parent \<Rightarrow> pyval list \<Rightarrow> pyval \<Rightarrow> py_error + module \<times> pyval" where
  "get_body (Module s subs) par arguments x =
     (case arguments of
        [] \<Rightarrow> Inl IndexError
      | key # _ \<Rightarrow>
          (case find_parameter s key of
             Inl err \<Rightarrow> Inl err
           | Inr None \<Rightarrow> Inr (Module s subs, VNone)
           | Inr (Some (n, p)) \<Rightarrow> Inr (Module s subs, parameter_get p)))"

definition get :: "module \<Rightarrow> pyval list \<Rightarrow> py_error + pyval" where
  "get m arguments = map_sum id snd (submodule_method False get_body m None arguments VNone)"

text \<open>
  The body of \<open>Module.set\<close> (module.py, lines 274-295), with its keyword arguments
  \<open>force_send\<close> and \<open>preserve_animation\<close>.
\<close>

fun set_body ::
  "bool \<Rightarrow> bool \<Rightarrow> module \<Rightarrow> parent \<Rightarrow> pyval list \<Rightarrow> engine \<Rightarrow> py_error + module \<times> engine" where
  "set_body force_send preserve_animation (Module s subs) par arguments e =
     (case arguments of
        [] \<Rightarrow> Inl IndexError
      | key # values \<Rightarrow>
          (case find_parameter s key of
             Inl err \<Rightarrow> Inl err
           | Inr None \<Rightarrow> Inr (Module s subs, e)
           | Inr (Some (n, p0)) \<Rightarrow>
               (let p1 = (if animate_running p0 \<and> \<not> preserve_animation then stop_animation p0 else p0) in
                if force_send \<and> truthy (parameter.address p1) then
                  (let p2 = snd (parameter_set values p1);
                       e' = send s par (parameter.address p2) (get_message_args p2) e;
                       p3 = set_last_sent p2
                   in Inr (Module (s\<lparr>parameters := store n p3 (parameters s)\<rparr>) subs, e'))
                else
                  (let (changed, p2) = parameter_set values p1 in
                   if changed \<and> \<not> parameter.dirty p2 then
                     (let p3 = p2\<lparr>parameter.dirty := True\<rparr>;
                          s1 = s\<lparr>parameters := store n p3 (parameters s),
                                 dirty_parameters := dirty_parameters s @ [n]\<rparr>;
                          (s2, e') = set_dirty s1 e
                      in Inr (Module s2 subs, e'))
                   else Inr (Module (s\<lparr>parameters := store n p2 (parameters s)\<rparr>) subs, e)))))"

text \<open>\<open>Module.set\<close> as decorated (module.py, lines 249-252).\<close>

definition set_m ::
  "module \<Rightarrow> parent \<Rightarrow> pyval list \<Rightarrow> bool \<Rightarrow> bool \<Rightarrow> engine \<Rightarrow> py_error + module \<times> engine" where
  "set_m m par arguments force_send preserve_animation e =
     submodule_method True (set_body force_send preserve_animation) m par arguments e"

text \<open>
  \<open>Module.reset\<close> (module.py, lines 299-320). \<open>reset_name\<close> is the branch for a
  name; \<open>reset\<close> with no name resets the submodules first and then each parameter of
  the module, in the dictionary's order.
\<close>

definition reset_name :: "module \<Rightarrow> parent \<Rightarrow> string \<Rightarrow> engine \<Rightarrow> py_error + module \<times> engine" where
  "reset_name m par n e =
     (case map_of (parameters (state m)) n of
        None \<Rightarrow> Inr (m, e)
      | Some p \<Rightarrow>
          (case default p of
             VNone \<Rightarrow> Inr (m, e)
           | VList vs \<Rightarrow> set_m m par (VStr n # vs) False False e
           | v \<Rightarrow> set_m m par [VStr n, v] False False e))"

fun reset_names :: "string list \<Rightarrow> module \<Rightarrow> parent \<Rightarrow> engine \<Rightarrow> py_error + module \<times> engine" where
  "reset_names [] m par e = Inr (m, e)"
| "reset_names (n # ns) m par e =
     (case reset_name m par n e of
        Inl err \<Rightarrow> Inl err
      | Inr (m', e') \<Rightarrow> reset_names ns m' par e')"

fun reset_all :: "module \<Rightarrow> parent \<Rightarrow> engine \<Rightarrow> py_error + module \<times> engine"
  and reset_submodules :: "(string \<times> module) list \<Rightarrow> parent \<Rightarrow> engine \<Rightarrow> py_error + (string \<times> module) list \<times> engine"
where
  "reset_all (Module s subs) par e =
     (case reset_submodules subs (as_parent s) e of
        Inl err \<Rightarrow> Inl err
      | Inr (subs', e') \<Rightarrow> reset_names (map fst (parameters s)) (Module s subs') par e')"
| "reset_submodules [] par e = Inr ([], e)"
| "reset_submodules ((n, m) # rest) par e =
     (case reset_all m par e of
        Inl err \<Rightarrow> Inl err
      | Inr (m', e') \<Rightarrow>
          (case reset_submodules rest par e' of
             Inl err \<Rightarrow> Inl err
           | Inr (rest', e'') \<Rightarrow> Inr ((n, m') # rest', e'')))"

definition reset :: "module \<Rightarrow> parent \<Rightarrow> string option \<Rightarrow> engine \<Rightarrow> py_error + module \<times> engine" where
  "reset m par n e = (case n of None \<Rightarrow> reset_all m par e | Some k \<Rightarrow> reset_name m par k e)"

subsection \<open>Animations\<close>

text \<open>
  The body of \<open>Module.stop_animate\<close> (module.py, lines 375-386).
  \<open>stop_animations\<close> is the loop of lines 381-382 over \<open>self.animations\<close>. The loop
  of lines 379-380 calls \<open>stop_animation('*')\<close> on each submodule: a \<open>Module\<close> has
  the method \<open>stop_animate\<close> and no attribute \<open>stop_animation\<close> (that is a method of
  \<open>Parameter\<close>), so with a submodule in the dictionary the first iteration raises.
\<close>

fun stop_animations :: "string list \<Rightarrow> (string \<times> parameter) list \<Rightarrow> py_error + (string \<times> parameter) list" where
  "stop_animations [] ps = Inr ps"
| "stop_animations (n # ns) ps =
     (case map_of ps n of
        None \<Rightarrow> Inl KeyError
      | Some p \<Rightarrow> stop_animations ns (store n (stop_animation p) ps))"

fun stop_animate_body :: "module \<Rightarrow> parent \<Rightarrow> pyval list \<Rightarrow> 'x \<Rightarrow> py_error + module \<times> 'x" where
  "stop_animate_body (Module s subs) par arguments x =
     (case arguments of
        [] \<Rightarrow> Inl IndexError
      | key # _ \<Rightarrow>
          if key = VStr ''*'' then
            (if subs \<noteq> [] then Inl AttributeError
             else
               (case stop_animations (animations s) (parameters s) of
                  Inl err \<Rightarrow> Inl err
                | Inr ps \<Rightarrow> Inr (Module (s\<lparr>parameters := ps\<rparr>) subs, x)))
          else
            (case key of
               VStr n \<Rightarrow>
                 if n \<in> set (animations s) then
                   (case map_of (parameters s) n of
                      None \<Rightarrow> Inl KeyError
                    | Some p \<Rightarrow>
                        Inr (Module (s\<lparr>parameters := store n (stop_animation p) (parameters s)\<rparr>) subs, x))
                 else Inr (Module s subs, x)
             | _ \<Rightarrow> Inr (Module s subs, x)))"

text \<open>\<open>Module.stop_animate\<close> as decorated (module.py, lines 360-363).\<close>

definition stop_animate :: "module \<Rightarrow> pyval list \<Rightarrow> py_error + module" where
  "stop_animate m arguments =
     map_sum id fst (submodule_method False stop_animate_body m None arguments ())"

text \<open>
  \<open>Module.update_animations\<close> (module.py, lines 389-408). \<open>animations_loop\<close> is the
  loop of lines 399-408 over \<open>self.animations\<close>, a list that the loop's last branch
  changes while the loop runs: Python's list iterator keeps an index \<open>i\<close>, stops when
  \<open>i\<close> reaches the current length and otherwise yields the element at \<open>i\<close> and
  moves on to \<open>i + 1\<close>; \<open>remove\<close> takes the first occurrence out.
  \<open>Parameter.update_animation\<close> (parameter.py, not among the sources) is the argument
  \<open>upd\<close>: from the current time and the parameter to whether the value changed and the
  parameter after the step.
\<close>

function animations_loop ::
  "(real \<Rightarrow> parameter \<Rightarrow> bool \<times> parameter) \<Rightarrow> nat \<Rightarrow> module_state \<Rightarrow> engine \<Rightarrow>
   py_error + module_state \<times> engine" where
  "animations_loop upd i s e =
     (if i < length (animations s) then
        (let n = animations s ! i in
         case map_of (parameters s) n of
           None \<Rightarrow> Inl KeyError
         | Some p \<Rightarrow>
             if animate_running p then
               (let (changed, p1) = upd (current_time e) p in
                if changed \<and> \<not> parameter.dirty p1 then
                  (let p2 = p1\<lparr>parameter.dirty := True\<rparr>;
                       s1 = s\<lparr>parameters := store n p2 (parameters s),
                              dirty_parameters := dirty_parameters s @ [n]\<rparr>;
                       (s2, e') = set_dirty s1 e
                   in animations_loop upd (Suc i) s2 e')
                else animations_loop upd (Suc i) (s\<lparr>parameters := store n p1 (parameters s)\<rparr>) e)
             else animations_loop upd (Suc i) (s\<lparr>animations := remove1 n (animations s)\<rparr>) e)
      else Inr (s, e))"
  by pat_completeness auto
termination
  by (relation "measure (\<lambda>(upd, i, s, e). length (animations s) - i)")
     (auto simp: set_dirty_def length_remove1 split: if_splits)

fun update_animations ::
    "(real \<Rightarrow> parameter \<Rightarrow> bool \<times> parameter) \<Rightarrow> module \<Rightarrow> engine \<Rightarrow> py_error + module \<times> engine"
  and update_animations_submodules ::
    "(real \<Rightarrow> parameter \<Rightarrow> bool \<times> parameter) \<Rightarrow> (string \<times> module) list \<Rightarrow> engine \<Rightarrow>
     py_error + (string \<times> module) list \<times> engine"
where
  "update_animations upd (Module s subs) e =
     (case update_animations_submodules upd subs e of
        Inl err \<Rightarrow> Inl err
      | Inr (subs', e') \<Rightarrow>
          (case animations_loop upd 0 s e' of
             Inl err \<Rightarrow> Inl err
           | Inr (s', e'') \<Rightarrow> Inr (Module s' subs', e'')))"
| "update_animations_submodules upd [] e = Inr ([], e)"
| "update_animations_submodules upd ((n, m) # rest) e =
     (case update_animations upd m e of
        Inl err \<Rightarrow> Inl err
      | Inr (m', e') \<Rightarrow>
          (case update_animations_submodules upd rest e' of
             Inl err \<Rightarrow> Inl err
           | Inr (rest', e'') \<Rightarrow> Inr ((n, m') # rest', e'')))"

subsection \<open>Mappings\<close>

text \<open>
  \<open>Module.update_mapping\<close> (module.py, lines 477-500). The mapping is one of
  \<open>self.mappings\<close> and is named by its index \<open>k\<close> there. \<open>dest_value\<close> is
  \<open>dest_values[i]\<close>; \<open>distribute\<close> is the loop of lines 491-497.
\<close>

definition dest_value :: "pyval \<Rightarrow> nat \<Rightarrow> py_error + pyval" where
  "dest_value dv i =
     (case dv of
        VList vs \<Rightarrow> item vs i
      | VStr s \<Rightarrow> map_sum id (\<lambda>c. VStr [c]) (item s i)
      | _ \<Rightarrow> Inl TypeError)"

fun distribute ::
  "module \<Rightarrow> parent \<Rightarrow> pyval \<Rightarrow> (nat \<times> string list) list \<Rightarrow> engine \<Rightarrow> py_error + module \<times> engine" where
  "distribute m par dv [] e = Inr (m, e)"
| "distribute m par dv ((i, param) # rest) e =
     (case dest_value dv i of
        Inl err \<Rightarrow> Inl err
      | Inr val \<Rightarrow>
          (case set_m m par (map VStr param @ (case val of VList vs \<Rightarrow> vs | v \<Rightarrow> [v])) False False e of
             Inl err \<Rightarrow> Inl err
           | Inr (m', e') \<Rightarrow> distribute m' par dv rest e'))"

definition with_mapping :: "nat \<Rightarrow> mapping \<Rightarrow> module \<Rightarrow> module" where
  "with_mapping k mp m =
     Module ((state m)\<lparr>mappings := (mappings (state m))[k := mp]\<rparr>) (submodules m)"

definition update_mapping :: "module \<Rightarrow> parent \<Rightarrow> nat \<Rightarrow> engine \<Rightarrow> py_error + module \<times> engine" where
  "update_mapping m par k e =
     (if length (mappings (state m)) \<le> k then Inl IndexError
      else
        (case lock (mappings (state m) ! k) of
           (False, _) \<Rightarrow> Inr (m, e)
         | (True, mp) \<Rightarrow>
             (let m1 = with_mapping k mp m in
              case sequence (map (\<lambda>param. get m1 (map VStr param)) (src mp)) of
                Inl err \<Rightarrow> Inl err
              | Inr src_values \<Rightarrow>
                  (let dest_values = transform mp src_values;
                       dest_values = (if n_args mp = 1 then VList [dest_values] else dest_values)
                   in case distribute m1 par dest_values (enumerate 0 (dest mp)) e of
                        Inl err \<Rightarrow> Inl err
                      | Inr (m2, e2) \<Rightarrow>
                          if \<not> module_state.dirty (state m2)
                          then Inr (with_mapping k (unlock (mappings (state m2) ! k)) m2, e2)
                          else Inr (m2, e2)))))"

subsection \<open>State\<close>

text \<open>
  \<open>Module.get_state\<close> (module.py, lines 534-567). \<open>state_entries\<close> is the loop over
  the module's own parameters.
\<close>

definition state_entry :: "bool \<Rightarrow> string \<times> parameter \<Rightarrow> pyval list list" where
  "state_entry omit_defaults np =
     (let val = parameter_get (snd np) in
      if omit_defaults \<and> val = default (snd np) then []
      else [case val of VList vs \<Rightarrow> VStr (fst np) # vs | v \<Rightarrow> [VStr (fst np), v]])"

definition state_entries :: "module_state \<Rightarrow> bool \<Rightarrow> pyval list list" where
  "state_entries s omit_defaults = concat (map (state_entry omit_defaults) (parameters s))"

fun get_state :: "module \<Rightarrow> bool \<Rightarrow> pyval list list"
  and get_state_submodules :: "(string \<times> module) list \<Rightarrow> bool \<Rightarrow> pyval list list"
where
  "get_state (Module s subs) omit_defaults =
     state_entries s omit_defaults @ get_state_submodules subs omit_defaults"
| "get_state_submodules [] omit_defaults = []"
| "get_state_submodules ((n, m) # rest) omit_defaults =
     map (\<lambda>x. VStr n # x) (get_state m omit_defaults) @ get_state_submodules rest omit_defaults"

text \<open>
  \<open>Module.set_state\<close> (module.py, lines 571-584): an item of the state that is a list
  is passed to \<open>set\<close>, any other item (a comment of a state file) is skipped.
\<close>

fun set_state :: "module \<Rightarrow> parent \<Rightarrow> pyval list \<Rightarrow> bool \<Rightarrow> engine \<Rightarrow> py_error + module \<times> engine" where
  "set_state m par [] force_send e = Inr (m, e)"
| "set_state m par (VList xs # rest) force_send e =
     (case set_m m par xs force_send False e of
        Inl err \<Rightarrow> Inl err
      | Inr (m', e') \<Rightarrow> set_state m' par rest force_send e')"
| "set_state m par (_ # rest) force_send e = set_state m par rest force_send e"

subsection \<open>Example configurations\<close>

text \<open>
  Small configurations on which the theorems below are evaluated: a parameter with one
  dynamic value \<open>0\<close>, the address \<open>/n\<close>, no default and a coercion that leaves
  values as they are; a module with an OSC port and the given parameters; an engine at
  time 0 with empty queues.
\<close>

definition example_parameter :: "string \<Rightarrow> parameter" where
  "example_parameter n =
     \<lparr>parameter.name = n, address = VStr (CHR ''/'' # n), static_args = [], cast = (\<lambda>i v. v),
      default = VNone, args = [VInt 0], dirty = False, last_sent = None,
      animate_running = False\<rparr>"

definition example_state :: "string list \<Rightarrow> (string \<times> parameter) list \<Rightarrow> module_state" where
  "example_state path ps =
     \<lparr>name = last path, module_path = path, protocol = VStr ''osc'', port = VInt 9000,
      parameters = ps, animations = [], mappings = [], dirty_parameters = [], dirty = False,
      aliases = []\<rparr>"

definition example_engine :: engine where
  "example_engine =
     \<lparr>current_time = 0, tempo = 120, tempo_map = [], dirty_modules = [], message_queue = []\<rparr>"

subsection \<open>The dirty buffer\<close>

text \<open>
  The state of a module's dirty buffer between two calls: no parameter is in it twice,
  and every parameter in it has its dirty flag set. \<open>buffers_ok\<close> says so of a module
  and of every module below it.
\<close>

definition buffer_ok :: "module_state \<Rightarrow> bool" where
  "buffer_ok s =
     (distinct (dirty_parameters s)
      \<and> list_all (\<lambda>n. case map_of (parameters s) n of None \<Rightarrow> False | Some p \<Rightarrow> parameter.dirty p)
           (dirty_parameters s))"

fun buffers_ok :: "module \<Rightarrow> bool"
  and buffers_ok_submodules :: "(string \<times> module) list \<Rightarrow> bool"
where
  "buffers_ok (Module s subs) = (buffer_ok s \<and> buffers_ok_submodules subs)"
| "buffers_ok_submodules [] = True"
| "buffers_ok_submodules ((n, m) # rest) = (buffers_ok m \<and> buffers_ok_submodules rest)"

text \<open>
  Whether a call of \<open>set\<close> with the values \<open>vs\<close> puts the parameter \<open>p\<close> into the
  dirty buffer, as the specification words it: the call is not a forced send to an address,
  \<open>Parameter.set\<close> reports a change, and the parameter is not dirty yet.
\<close>

definition enqueues :: "bool \<Rightarrow> pyval list \<Rightarrow> parameter \<Rightarrow> bool" where
  "enqueues force_send vs p =
     (\<not> (force_send \<and> truthy (parameter.address p)) \<and> fst (parameter_set vs p) \<and> \<not> parameter.dirty p)"

subsection \<open>The owner of a destination\<close>

text \<open>
  The end of \<open>Module.update_dirty_parameters\<close> (module.py, lines 724-727), after the
  loop that drains the dirty buffer: every mapping of the module is unlocked and the
  module's dirty flag is cleared.
\<close>

definition unlock_sweep :: "module_state \<Rightarrow> module_state" where
  "unlock_sweep s = s\<lparr>mappings := map unlock (mappings s), module_state.dirty := False\<rparr>"

text \<open>
  The module that owns the parameter at a path (the module itself for a bare name, a
  submodule for a longer path), and, in the specification's words, whether a destination module
  of a mapping is dirty.
\<close>

fun module_at :: "module \<Rightarrow> string list \<Rightarrow> module option" where
  "module_at m [] = Some m"
| "module_at m (n # ns) =
     (case map_of (submodules m) n of None \<Rightarrow> None | Some sub \<Rightarrow> module_at sub ns)"

definition destination_dirty :: "module \<Rightarrow> string list \<Rightarrow> bool" where
  "destination_dirty m param =
     (case module_at m (butlast param) of
        None \<Rightarrow> False
      | Some d \<Rightarrow> module_state.dirty (state d))"

definition a_destination_is_dirty :: "module \<Rightarrow> mapping \<Rightarrow> bool" where
  "a_destination_is_dirty m mp = list_ex (destination_dirty m) (dest mp)"

text \<open>
  A module with the parameter \<open>a\<close> and a submodule \<open>sub\<close> with the parameter
  \<open>p\<close>, both clean, and one mapping from \<open>a\<close> to \<open>sub/p\<close> whose transform adds
  7 to an integer.
\<close>

definition example_mapping :: mapping where
  "example_mapping =
     \<lparr>src = [[''a'']], dest = [[''sub'', ''p'']],
      transform = (\<lambda>vs. case vs of [VInt x] \<Rightarrow> VInt (x + 7) | _ \<Rightarrow> VNone),
      locked = False\<rparr>"

definition example_owner :: module where
  "example_owner =
     Module ((example_state [''root'', ''m''] [(''a'', example_parameter ''a'')])
               \<lparr>mappings := [example_mapping]\<rparr>)
       [(''sub'', Module (example_state [''root'', ''m'', ''sub''] [(''p'', example_parameter ''p'')]) [])]"

text \<open>
  The same module after \<open>update_mapping\<close> on its mapping: \<open>sub/p\<close> is 7 and dirty,
  the submodule is dirty, the module itself is not, and the mapping is unlocked.
\<close>

definition example_owner_after :: module where
  "example_owner_after =
     Module ((example_state [''root'', ''m''] [(''a'', example_parameter ''a'')])
               \<lparr>mappings := [example_mapping]\<rparr>)
       [(''sub'',
         Module ((example_state [''root'', ''m'', ''sub'']
                    [(''p'', (example_parameter ''p'')\<lparr>args := [VInt 7], parameter.dirty := True\<rparr>)])
                   \<lparr>dirty_parameters := [''p''], module_state.dirty := True\<rparr>) [])]"

text \<open>
  A module whose mapping goes from its parameter \<open>a\<close> to its own parameter \<open>b\<close>,
  before and after \<open>update_mapping\<close>: \<open>b\<close> is 7 and dirty, the module is dirty and
  the mapping stays locked.
\<close>

definition example_local :: module where
  "example_local =
     Module ((example_state [''root'', ''m'']
                [(''a'', example_parameter ''a''), (''b'', example_parameter ''b'')])
               \<lparr>mappings := [example_mapping\<lparr>dest := [[''b'']]\<rparr>]\<rparr>) []"

definition example_local_after :: module where
  "example_local_after =
     Module ((example_state [''root'', ''m'']
                [(''a'', example_parameter ''a''),
                 (''b'', (example_parameter ''b'')\<lparr>args := [VInt 7], parameter.dirty := True\<rparr>)])
               \<lparr>mappings := [example_mapping\<lparr>dest := [[''b'']], locked := True\<rparr>],
                 dirty_parameters := [''b''], module_state.dirty := True\<rparr>) []"

subsection \<open>The round trip of a state\<close>

text \<open>
  The conditions under which every entry of \<open>get_state()\<close> comes back to the
  parameter it was read from. A parameter is settled when its stored values are what
  the coercion of its slots makes of them (as values stored by \<open>Parameter.set\<close> are,
  for a coercion that leaves coerced values alone) and it does not hold a list as its
  single value. The names of a module are unambiguous when its two dictionaries have
  each key once, no parameter's name leads the decorator to a submodule (as an alias,
  a submodule's name or a pattern), and no submodule's name is an alias of another.
\<close>

definition parameter_settled :: "parameter \<Rightarrow> bool" where
  "parameter_settled p =
     (map (\<lambda>(i, v). cast p i v) (enumerate 0 (parameter.args p)) = parameter.args p
      \<and> (case parameter.args p of [VList _] \<Rightarrow> False | _ \<Rightarrow> True))"

definition own_name :: "module_state \<Rightarrow> string list \<Rightarrow> string \<Rightarrow> bool" where
  "own_name s names n =
     (let r = (case map_of (aliases s) n of Some a \<Rightarrow> a | None \<Rightarrow> n)
      in r \<notin> set names \<and> \<not> is_pattern r)"

definition names_unambiguous :: "module_state \<Rightarrow> string list \<Rightarrow> bool" where
  "names_unambiguous s names =
     (distinct (map fst (parameters s)) \<and> distinct names
      \<and> list_all (own_name s names) (map fst (parameters s))
      \<and> list_all (\<lambda>n. map_of (aliases s) n = None) names)"

fun well_formed :: "module \<Rightarrow> bool"
  and well_formed_submodules :: "(string \<times> module) list \<Rightarrow> bool"
where
  "well_formed (Module s subs) =
     (names_unambiguous s (map fst subs)
      \<and> list_all parameter_settled (map snd (parameters s))
      \<and> well_formed_submodules subs)"
| "well_formed_submodules [] = True"
| "well_formed_submodules ((n, m) # rest) = (well_formed m \<and> well_formed_submodules rest)"

text \<open>
  What \<open>set_state(get_state())\<close> makes of a parameter, of the engine (the messages of
  a forced send, one for each parameter of the module that has an address, in the
  dictionary's order) and of a module with its submodules: a running animation is
  stopped, a forced send to an address is recorded as the last sent snapshot, and
  nothing else changes.
\<close>

definition resent :: "bool \<Rightarrow> parameter \<Rightarrow> parameter" where
  "resent force_send p =
     (let p1 = (if animate_running p then stop_animation p else p)
      in if force_send \<and> truthy (parameter.address p) then set_last_sent p1 else p1)"

fun resend :: "bool \<Rightarrow> module_state \<Rightarrow> parent \<Rightarrow> (string \<times> parameter) list \<Rightarrow> engine \<Rightarrow> engine" where
  "resend force_send s par [] e = e"
| "resend force_send s par ((n, p) # ps) e =
     resend force_send s par ps
       (if force_send \<and> truthy (parameter.address p)
        then send s par (parameter.address p) (get_message_args p) e else e)"

fun resync :: "bool \<Rightarrow> parent \<Rightarrow> module \<Rightarrow> engine \<Rightarrow> module \<times> engine"
  and resync_submodules ::
    "bool \<Rightarrow> parent \<Rightarrow> (string \<times> module) list \<Rightarrow> engine \<Rightarrow> (string \<times> module) list \<times> engine"
where
  "resync force_send par (Module s subs) e =
     (let r = resync_submodules force_send (as_parent s) subs
                (resend force_send s par (parameters s) e)
      in (Module (s\<lparr>parameters := map (\<lambda>(n, p). (n, resent force_send p)) (parameters s)\<rparr>) (fst r),
          snd r))"
| "resync_submodules force_send par [] e = ([], e)"
| "resync_submodules force_send par ((n, m) # rest) e =
     (let r = resync force_send par m e;
          r' = resync_submodules force_send par rest (snd r)
      in ((n, fst r) # fst r', snd r'))"

text \<open>Whether an animation runs on a parameter of the module or of a module below it.\<close>

fun animating :: "module \<Rightarrow> bool"
  and animating_submodules :: "(string \<times> module) list \<Rightarrow> bool"
where
  "animating (Module s subs) =
     (list_ex animate_running (map snd (parameters s)) \<or> animating_submodules subs)"
| "animating_submodules [] = False"
| "animating_submodules ((n, m) # rest) = (animating m \<or> animating_submodules rest)"

text \<open>
  The module with the submodule after a forced send of its state (each parameter's last
  sent snapshot is its value), and a module whose single parameter is being animated.
\<close>

definition example_owner_resent :: module where
  "example_owner_resent =
     Module ((example_state [''root'', ''m'']
                [(''a'', (example_parameter ''a'')\<lparr>last_sent := Some [VInt 0]\<rparr>)])
               \<lparr>mappings := [example_mapping]\<rparr>)
       [(''sub'',
         Module (example_state [''root'', ''m'', ''sub'']
                   [(''p'', (example_parameter ''p'')\<lparr>last_sent := Some [VInt 0]\<rparr>)]) [])]"

definition example_animated :: module where
  "example_animated =
     Module (example_state [''root'', ''m'']
               [(''a'', (example_parameter ''a'')\<lparr>animate_running := True\<rparr>)]) []"

section \<open>Timer: proofs\<close>

text \<open>
  C3. \<open>Timer.update_tempo\<close>: a timer that is waiting on beats gets the end time
  \<open>current_time + remaining_time * (old_tempo / new_tempo)\<close> (for tempos other than
  zero, on which the code divides), so the beats that remain are the same at the new
  tempo as they were at the old one; and the tempo snapshot becomes the engine's tempo
  whether the timer waits on beats or not.
\<close>

theorem update_tempo_rescales_remaining_time:
  "(is_beat_waiting t \<longrightarrow> timer.tempo t \<noteq> 0 \<longrightarrow> engine_time.tempo e \<noteq> 0 \<longrightarrow>
      update_tempo e t =
        Inr (t\<lparr>end_time := current_time e
                   + (end_time t - current_time e) * (timer.tempo t / engine_time.tempo e),
               tempo := engine_time.tempo e\<rparr>)
      \<and> (\<forall>t'. update_tempo e t = Inr t' \<longrightarrow>
             remaining_beats (current_time e) t' = remaining_beats (current_time e) t))
   \<and> (\<not> is_beat_waiting t \<longrightarrow> update_tempo e t = Inr (t\<lparr>tempo := engine_time.tempo e\<rparr>))"
  by (auto simp: update_tempo_def Let_def remaining_beats_def)

text \<open>
  The example of C3: a wait of 4 beats at tempo 120 (2 seconds) started at time 0, half
  elapsed when the tempo drops to 60. One second remained; two seconds remain after the
  update, and they are 2 beats before and after.
\<close>

theorem update_tempo_rescales_remaining_time_witness:
  "is_beat_waiting (wait_start \<lparr>start_time = 0, tempo = 120, end_time = 0, is_beat_waiting = False\<rparr>
        2000000000 ''beats'')
   \<and> update_tempo \<lparr>current_time = 1000000000, tempo = 60, tempo_map = []\<rparr>
        (wait_start \<lparr>start_time = 0, tempo = 120, end_time = 0, is_beat_waiting = False\<rparr>
           2000000000 ''beats'')
      = Inr \<lparr>start_time = 0, tempo = 60, end_time = 3000000000, is_beat_waiting = True\<rparr>
   \<and> 3000000000 - 1000000000 = 2 * ((2000000000::real) - 1000000000)
   \<and> remaining_beats 1000000000
        \<lparr>start_time = 0, tempo = 60, end_time = 3000000000, is_beat_waiting = True\<rparr> = 2
   \<and> remaining_beats 1000000000
        (wait_start \<lparr>start_time = 0, tempo = 120, end_time = 0, is_beat_waiting = False\<rparr>
           2000000000 ''beats'') = 2"
  using update_tempo_rescales_remaining_time
    [of "wait_start \<lparr>start_time = 0, tempo = 120, end_time = 0, is_beat_waiting = False\<rparr>
           2000000000 ''beats''"
        "\<lparr>current_time = 1000000000, tempo = 60, tempo_map = []\<rparr>"]
  by (simp add: wait_start_def remaining_beats_def)






































lemma wait_loop_reaches:
  "due P env t0 (k + n) \<Longrightarrow> (\<And>j. j < n \<Longrightarrow> \<not> due P env t0 (k + j)) \<Longrightarrow>
   wait_loop P env k (timer_before env t0 k) = Some (k + n, timer_at env t0 (k + n))"
proof (induction n arbitrary: k)
  case 0
  then show ?case
    by (simp add: wait_loop.simps [of P env k] due_def timer_at_def Let_def not_less)
next
  case (Suc n)
  have first: "\<not> due P env t0 k" using Suc.prems(2) [of 0] by simp
  have "wait_loop P env (Suc k) (timer_before env t0 (Suc k)) = Some (Suc k + n, timer_at env t0 (Suc k + n))"
  proof (rule Suc.IH)
    show "due P env t0 (Suc k + n)" using Suc.prems(1) by simp
  next
    fix j assume "j < n"
    then show "\<not> due P env t0 (Suc k + j)" using Suc.prems(2) [of "Suc j"] by simp
  qed
  then show ?case using first
    by (simp add: wait_loop.simps [of P env k] due_def timer_at_def Let_def not_le)
qed

lemma wait_loop_returns:
  assumes "wait_loop P env k t = Some r"
  shows "\<forall>t0. t = timer_before env t0 k \<longrightarrow>
           k \<le> fst r \<and> snd r = timer_at env t0 (fst r) \<and> due P env t0 (fst r)
           \<and> (\<forall>j. k \<le> j \<and> j < fst r \<longrightarrow> \<not> due P env t0 j)"
proof (rule wait_loop.raw_induct
    [where P = "\<lambda>P env k t r. \<forall>t0. t = timer_before env t0 k \<longrightarrow>
           k \<le> fst r \<and> snd r = timer_at env t0 (fst r) \<and> due P env t0 (fst r)
           \<and> (\<forall>j. k \<le> j \<and> j < fst r \<longrightarrow> \<not> due P env t0 j)", OF _ assms])
  fix wl :: "real \<Rightarrow> (nat \<Rightarrow> observation) \<Rightarrow> nat \<Rightarrow> timer \<Rightarrow> (nat \<times> timer) option"
    and P env k t r
  assume ih: "\<And>P env k t r. wl P env k t = Some r \<Longrightarrow>
        \<forall>t0. t = timer_before env t0 k \<longrightarrow>
           k \<le> fst r \<and> snd r = timer_at env t0 (fst r) \<and> due P env t0 (fst r)
           \<and> (\<forall>j. k \<le> j \<and> j < fst r \<longrightarrow> \<not> due P env t0 j)"
    and eq: "(let t' = apply_updates (fst (env k)) t in
              if snd (env k) < end_time t' - P then wl P env (Suc k) t' else Some (k, t')) = Some r"
  show "\<forall>t0. t = timer_before env t0 k \<longrightarrow>
           k \<le> fst r \<and> snd r = timer_at env t0 (fst r) \<and> due P env t0 (fst r)
           \<and> (\<forall>j. k \<le> j \<and> j < fst r \<longrightarrow> \<not> due P env t0 j)"
  proof (intro allI impI)
    fix t0 assume t: "t = timer_before env t0 k"
    then have at: "apply_updates (fst (env k)) t = timer_at env t0 k"
      by (simp add: timer_at_def)
    show "k \<le> fst r \<and> snd r = timer_at env t0 (fst r) \<and> due P env t0 (fst r)
           \<and> (\<forall>j. k \<le> j \<and> j < fst r \<longrightarrow> \<not> due P env t0 j)"
    proof (cases "due P env t0 k")
      case True
      then have "r = (k, timer_at env t0 k)" using eq at by (simp add: due_def Let_def not_less [symmetric])
      then show ?thesis using True by auto
    next
      case False
      then have "wl P env (Suc k) (timer_at env t0 k) = Some r"
        using eq at by (simp add: due_def Let_def not_le)
      from ih [OF this] have r: "Suc k \<le> fst r \<and> snd r = timer_at env t0 (fst r) \<and> due P env t0 (fst r)
           \<and> (\<forall>j. Suc k \<le> j \<and> j < fst r \<longrightarrow> \<not> due P env t0 j)"
        by (simp add: timer_at_def)
      have "\<not> due P env t0 j" if "k \<le> j" "j < fst r" for j
      proof (cases "j = k")
        case True then show ?thesis using False by simp
      next
        case False then show ?thesis using that r by simp
      qed
      then show ?thesis using r by simp
    qed
  qed
qed

lemma wait_loop_iff:
  "wait_loop P env 0 t = Some (n, t2) \<longleftrightarrow>
     (t2 = timer_at env t n \<and> due P env t n \<and> (\<forall>j<n. \<not> due P env t j))"
proof
  assume "wait_loop P env 0 t = Some (n, t2)"
  from wait_loop_returns [OF this, rule_format, of t]
  show "t2 = timer_at env t n \<and> due P env t n \<and> (\<forall>j<n. \<not> due P env t j)" by simp
next
  assume "t2 = timer_at env t n \<and> due P env t n \<and> (\<forall>j<n. \<not> due P env t j)"
  then show "wait_loop P env 0 t = Some (n, t2)"
    using wait_loop_reaches [of P env t 0 n] by simp
qed

lemma wait_loop_never:
  "wait_loop P env 0 t = None \<longleftrightarrow> (\<forall>k. \<not> due P env t k)"
proof
  assume a: "\<forall>k. \<not> due P env t k"
  show "wait_loop P env 0 t = None"
  proof (cases "wait_loop P env 0 t")
    case (Some r)
    from wait_loop_returns [OF this, rule_format, of t] a [rule_format, of "fst r"]
    show ?thesis by simp
  qed simp
next
  assume n: "wait_loop P env 0 t = None"
  show "\<forall>k. \<not> due P env t k"
  proof (rule ccontr)
    assume "\<not> (\<forall>k. \<not> due P env t k)"
    then have ex: "\<exists>k. due P env t k" by simp
    define m where "m = (LEAST k. due P env t k)"
    have 1: "due P env t m" unfolding m_def using ex by (rule LeastI_ex)
    have 2: "\<not> due P env t j" if "j < m" for j
      using not_less_Least [of j "\<lambda>k. due P env t k"] that unfolding m_def by simp
    have "wait_loop P env 0 t = Some (m, timer_at env t m)" using 1 2 by (simp add: wait_loop_iff)
    then show False using n by simp
  qed
qed


lemma apply_update_keeps:
  "is_beat_waiting (apply_update e t) = is_beat_waiting t
   \<and> start_time (apply_update e t) = start_time t
   \<and> (\<not> is_beat_waiting t \<longrightarrow> end_time (apply_update e t) = end_time t)"
  by (simp add: apply_update_def update_tempo_def Let_def)

lemma apply_updates_keeps:
  "is_beat_waiting (apply_updates es t) = is_beat_waiting t
   \<and> start_time (apply_updates es t) = start_time t
   \<and> (\<not> is_beat_waiting t \<longrightarrow> end_time (apply_updates es t) = end_time t)"
  unfolding apply_updates_def
  by (induction es arbitrary: t) (simp_all add: apply_update_keeps)

lemma timer_before_keeps:
  "is_beat_waiting (timer_before env t k) = is_beat_waiting t
   \<and> (\<not> is_beat_waiting t \<longrightarrow> end_time (timer_before env t k) = end_time t)"
  by (induction k) (simp_all add: apply_updates_keeps)

lemma timer_before_no_update:
  "(\<forall>k. fst (env k) = []) \<Longrightarrow> timer_before env t k = t"
  by (induction k) (simp_all add: apply_updates_def)

lemma wait_returns_iff:
  assumes dur: "wait_duration t duration mode = Inr (Some d)"
  shows "wait P env late t duration mode = Some r \<longleftrightarrow>
           (\<exists>n. due P env (wait_start t d mode) n
                \<and> (\<forall>j<n. \<not> due P env (wait_start t d mode) j)
                \<and> r = Inr (wait_end late (timer_at env (wait_start t d mode) n)))"
proof (cases "wait_loop P env 0 (wait_start t d mode)")
  case None
  then have "\<forall>k. \<not> due P env (wait_start t d mode) k" by (simp add: wait_loop_never)
  then show ?thesis using None dur by (simp add: wait_def)
next
  case (Some kt)
  obtain n t2 where kt: "kt = (n, t2)" by (cases kt)
  have loop: "wait_loop P env 0 (wait_start t d mode) = Some (n, t2)" using Some kt by simp
  then have first: "t2 = timer_at env (wait_start t d mode) n \<and> due P env (wait_start t d mode) n
      \<and> (\<forall>j<n. \<not> due P env (wait_start t d mode) j)"
    by (simp add: wait_loop_iff)
  have w: "wait P env late t duration mode = Some (Inr (wait_end late t2))"
    using loop dur by (simp add: wait_def)
  have only: "m = n" if "due P env (wait_start t d mode) m"
      "\<forall>j<m. \<not> due P env (wait_start t d mode) j" for m
  proof -
    have "wait_loop P env 0 (wait_start t d mode) = Some (m, timer_at env (wait_start t d mode) m)"
      using that by (simp add: wait_loop_iff)
    then show ?thesis using loop by simp
  qed
  show ?thesis
  proof
    assume "wait P env late t duration mode = Some r"
    then have "r = Inr (wait_end late t2)" using w by simp
    then show "\<exists>n. due P env (wait_start t d mode) n
                \<and> (\<forall>j<n. \<not> due P env (wait_start t d mode) j)
                \<and> r = Inr (wait_end late (timer_at env (wait_start t d mode) n))"
      using first by blast
  next
    assume "\<exists>n. due P env (wait_start t d mode) n
                \<and> (\<forall>j<n. \<not> due P env (wait_start t d mode) j)
                \<and> r = Inr (wait_end late (timer_at env (wait_start t d mode) n))"
    then obtain m where m: "due P env (wait_start t d mode) m"
        "\<forall>j<m. \<not> due P env (wait_start t d mode) j"
        "r = Inr (wait_end late (timer_at env (wait_start t d mode) m))" by blast
    from only [OF m(1) m(2)] m(3) first w
    show "wait P env late t duration mode = Some r" by simp
  qed
qed

lemma wait_never_iff:
  assumes dur: "wait_duration t duration mode = Inr (Some d)"
  shows "wait P env late t duration mode = None \<longleftrightarrow>
           (\<forall>k. \<not> due P env (wait_start t d mode) k)"
proof (cases "wait_loop P env 0 (wait_start t d mode)")
  case None
  then show ?thesis using dur by (simp add: wait_def wait_loop_never [symmetric])
next
  case (Some kt)
  have 1: "wait P env late t duration mode \<noteq> None"
    using dur Some by (cases kt) (simp add: wait_def Let_def)
  have 2: "\<not> (\<forall>k. \<not> due P env (wait_start t d mode) k)"
    using Some wait_loop_never [of P env "wait_start t d mode"] by simp
  from 1 2 show ?thesis by blast
qed


text \<open>
  C5. \<open>Timer.wait\<close>: a duration in beats is converted with \<open>60 / tempo\<close> seconds
  per beat, one in seconds with \<open>10^9\<close>, one in nanoseconds (mode \<open>ns\<close>) is taken
  as it is; the end time becomes \<open>start_time + duration\<close>; the flag
  \<open>is_beat_waiting\<close> is set just when the mode starts with \<open>b\<close>; the loop ends at
  the first evaluation of its condition that finds the clock not below
  \<open>end_time - MAINLOOP_PERIOD_NS\<close>, the end time being the one the timer has at that
  evaluation (and it never ends, if there is none); on return the flag is cleared and
  \<open>start_time\<close> is the end time the timer has then. When no \<open>update_tempo\<close> falls
  into the wait, and always when the wait is not in beats, that end time is the old
  \<open>start_time\<close> plus the duration, whatever the clock read: the next wait starts where
  this one was due to end.
\<close>

theorem wait_sets_end_time_polls_and_rebases:
  "(mode \<noteq> [] \<and> hd mode = CHR ''b'' \<and> timer.tempo t \<noteq> 0 \<longrightarrow>
      wait_duration t duration mode = Inr (Some (duration * (60 / timer.tempo t) * 1000000000)))
   \<and> (mode \<noteq> [] \<and> hd mode = CHR ''s'' \<longrightarrow>
      wait_duration t duration mode = Inr (Some (duration * 1000000000)))
   \<and> (mode = ''ns'' \<longrightarrow> wait_duration t duration mode = Inr (Some duration))
   \<and> (wait_duration t duration mode = Inr (Some d) \<longrightarrow>
        end_time (wait_start t d mode) = start_time t + d
      \<and> is_beat_waiting (wait_start t d mode) = (hd mode = CHR ''b'' \<or> is_beat_waiting t)
      \<and> (\<forall>r. wait P env late t duration mode = Some r \<longleftrightarrow>
               (\<exists>n. due P env (wait_start t d mode) n
                    \<and> (\<forall>j<n. \<not> due P env (wait_start t d mode) j)
                    \<and> r = Inr (wait_end late (timer_at env (wait_start t d mode) n))))
      \<and> (wait P env late t duration mode = None \<longleftrightarrow>
               (\<forall>k. \<not> due P env (wait_start t d mode) k))
      \<and> (\<forall>t'. wait P env late t duration mode = Some (Inr t') \<longrightarrow>
               start_time t' = end_time t' \<and> \<not> is_beat_waiting t')
      \<and> ((\<forall>k. fst (env k) = []) \<and> late = [] \<longrightarrow>
           wait P env late t duration mode =
             (if \<forall>k. snd (env k) < start_time t + d - P then None
              else Some (Inr (t\<lparr>end_time := start_time t + d, is_beat_waiting := False,
                                 start_time := start_time t + d\<rparr>))))
      \<and> (hd mode \<noteq> CHR ''b'' \<and> \<not> is_beat_waiting t \<longrightarrow>
           (\<forall>t'. wait P env late t duration mode = Some (Inr t') \<longrightarrow>
                  end_time t' = start_time t + d \<and> start_time t' = start_time t + d)))"
proof -
  let ?t1 = "wait_start t d mode"
  have d: "mode \<noteq> [] \<and> hd mode = CHR ''b'' \<and> timer.tempo t \<noteq> 0 \<longrightarrow>
      wait_duration t duration mode = Inr (Some (duration * (60 / timer.tempo t) * 1000000000))"
    by (cases mode) (simp_all add: wait_duration_def)
  have s: "mode \<noteq> [] \<and> hd mode = CHR ''s'' \<longrightarrow>
      wait_duration t duration mode = Inr (Some (duration * 1000000000))"
    by (cases mode) (simp_all add: wait_duration_def)
  have ns: "mode = ''ns'' \<longrightarrow> wait_duration t duration mode = Inr (Some duration)"
    by (simp add: wait_duration_def)
  have e: "end_time ?t1 = start_time t + d"
    by (simp add: wait_start_def Let_def)
  have b: "is_beat_waiting ?t1 = (hd mode = CHR ''b'' \<or> is_beat_waiting t)"
    by (simp add: wait_start_def Let_def)
  have st: "start_time ?t1 = start_time t"
    by (simp add: wait_start_def Let_def)
  have r: "\<forall>r. wait P env late t duration mode = Some r \<longleftrightarrow>
               (\<exists>n. due P env ?t1 n \<and> (\<forall>j<n. \<not> due P env ?t1 j)
                    \<and> r = Inr (wait_end late (timer_at env ?t1 n)))"
    if dur: "wait_duration t duration mode = Inr (Some d)"
    using wait_returns_iff [OF dur] by blast
  have n: "wait P env late t duration mode = None \<longleftrightarrow> (\<forall>k. \<not> due P env ?t1 k)"
    if dur: "wait_duration t duration mode = Inr (Some d)"
    by (rule wait_never_iff [OF dur])
  have rb: "\<forall>t'. wait P env late t duration mode = Some (Inr t') \<longrightarrow>
               start_time t' = end_time t' \<and> \<not> is_beat_waiting t'"
    if dur: "wait_duration t duration mode = Inr (Some d)"
  proof (intro allI impI)
    fix t' assume "wait P env late t duration mode = Some (Inr t')"
    then obtain m where "t' = wait_end late (timer_at env ?t1 m)"
      using wait_returns_iff [OF dur, of P env late "Inr t'"] by auto
    then show "start_time t' = end_time t' \<and> \<not> is_beat_waiting t'"
      by (simp add: wait_end_def Let_def)
  qed
  have q: "wait P env late t duration mode =
             (if \<forall>k. snd (env k) < start_time t + d - P then None
              else Some (Inr (t\<lparr>end_time := start_time t + d, is_beat_waiting := False,
                                 start_time := start_time t + d\<rparr>)))"
    if dur: "wait_duration t duration mode = Inr (Some d)"
      and quiet: "(\<forall>k. fst (env k) = []) \<and> late = []"
  proof -
    have at: "timer_at env ?t1 k = ?t1" for k
      using quiet timer_before_no_update [of env ?t1 "Suc k"] by (simp add: timer_at_def)
    have du: "due P env ?t1 k = (\<not> snd (env k) < start_time t + d - P)" for k
      by (simp add: due_def at e not_less)
    have we: "wait_end late ?t1 = t\<lparr>end_time := start_time t + d, is_beat_waiting := False,
                                 start_time := start_time t + d\<rparr>"
      using quiet by (simp add: wait_end_def Let_def apply_updates_def e) (simp add: wait_start_def Let_def)
    show ?thesis
    proof (cases "\<forall>k. snd (env k) < start_time t + d - P")
      case True
      then have "\<forall>k. \<not> due P env ?t1 k" by (simp add: du)
      then have "wait P env late t duration mode = None" by (simp add: wait_never_iff [OF dur])
      then show ?thesis using True by simp
    next
      case False
      then have "\<not> (\<forall>k. \<not> due P env ?t1 k)" by (simp add: du)
      then obtain res where res: "wait P env late t duration mode = Some res"
        using wait_never_iff [OF dur, of P env late] by (cases "wait P env late t duration mode") auto
      then obtain m where "res = Inr (wait_end late (timer_at env ?t1 m))"
        using wait_returns_iff [OF dur, of P env late res] by auto
      then have "res = Inr (t\<lparr>end_time := start_time t + d, is_beat_waiting := False,
                                 start_time := start_time t + d\<rparr>)"
        by (simp add: at we)
      then show ?thesis using res False by simp
    qed
  qed
  have nb: "\<forall>t'. wait P env late t duration mode = Some (Inr t') \<longrightarrow>
                  end_time t' = start_time t + d \<and> start_time t' = start_time t + d"
    if dur: "wait_duration t duration mode = Inr (Some d)"
      and plain: "hd mode \<noteq> CHR ''b'' \<and> \<not> is_beat_waiting t"
  proof (intro allI impI)
    fix t' assume "wait P env late t duration mode = Some (Inr t')"
    then obtain m where t': "t' = wait_end late (timer_at env ?t1 m)"
      using wait_returns_iff [OF dur, of P env late "Inr t'"] by auto
    have nf: "\<not> is_beat_waiting ?t1" using plain b by simp
    have "\<not> is_beat_waiting (timer_at env ?t1 m) \<and> end_time (timer_at env ?t1 m) = end_time ?t1"
      using nf timer_before_keeps [of env ?t1 "Suc m"] by (simp add: timer_at_def)
    then have "end_time (apply_updates late (timer_at env ?t1 m)) = end_time ?t1"
      using apply_updates_keeps [of late "timer_at env ?t1 m"] by simp
    then show "end_time t' = start_time t + d \<and> start_time t' = start_time t + d"
      using t' e by (simp add: wait_end_def Let_def)
  qed
  from d s ns e b r n rb q nb show ?thesis by blast
qed


text \<open>
  Three waits from time 0 at tempo 120, the clock read once a second. The first is of 4
  beats (2 seconds), and the tempo drops to 60 after one second: \<open>update_tempo\<close>
  moves the end time to 3 seconds, the loop goes on until the clock reads 3 seconds, and
  the wait returns with \<open>start_time = end_time\<close>, 3 seconds. The second is of 4
  beats with no tempo change, and returns with both at 2 seconds. The third is of 2
  seconds with the same tempo change as the first: only the tempo snapshot follows, and
  the wait returns with both at 2 seconds.
\<close>

theorem wait_sets_end_time_polls_and_rebases_witness:
  "wait 1000000
      (\<lambda>k. if k = 1 then ([\<lparr>current_time = 1000000000, tempo = 60, tempo_map = []\<rparr>], 1000000000)
            else ([], real k * 1000000000))
      []
      \<lparr>start_time = 0, tempo = 120, end_time = 0, is_beat_waiting = False\<rparr> 4 ''beats''
    = Some (Inr \<lparr>start_time = 3000000000, tempo = 60, end_time = 3000000000, is_beat_waiting = False\<rparr>)
   \<and> wait 1000000 (\<lambda>k. ([], real k * 1000000000)) []
      \<lparr>start_time = 0, tempo = 120, end_time = 0, is_beat_waiting = False\<rparr> 4 ''beats''
    = Some (Inr \<lparr>start_time = 2000000000, tempo = 120, end_time = 2000000000, is_beat_waiting = False\<rparr>)
   \<and> wait 1000000
      (\<lambda>k. if k = 1 then ([\<lparr>current_time = 1000000000, tempo = 60, tempo_map = []\<rparr>], 1000000000)
            else ([], real k * 1000000000))
      []
      \<lparr>start_time = 0, tempo = 120, end_time = 0, is_beat_waiting = False\<rparr> 2 ''seconds''
    = Some (Inr \<lparr>start_time = 2000000000, tempo = 60, end_time = 2000000000, is_beat_waiting = False\<rparr>)"
proof -
  let ?t = "\<lparr>start_time = 0, tempo = 120, end_time = 0, is_beat_waiting = False\<rparr>"
  let ?t1 = "\<lparr>start_time = 0, tempo = 120, end_time = 2000000000, is_beat_waiting = True\<rparr>"
  let ?t2 = "\<lparr>start_time = 0, tempo = 60, end_time = 3000000000, is_beat_waiting = True\<rparr>"
  let ?e = "\<lparr>current_time = 1000000000, tempo = 60, tempo_map = []\<rparr>"
  let ?env = "\<lambda>k::nat. if k = 1 then ([?e], 1000000000::real) else ([], real k * 1000000000)"
  let ?quiet = "\<lambda>k::nat. ([] :: engine_time list, real k * 1000000000)"
  have dur: "wait_duration ?t 4 ''beats'' = Inr (Some 2000000000)"
    by (simp add: wait_duration_def)
  have ws: "wait_start ?t 2000000000 ''beats'' = ?t1"
    by (simp add: wait_start_def)
  have up: "apply_updates [?e] ?t1 = ?t2"
    by (simp add: apply_updates_def apply_update_def update_tempo_def)
  have b0: "timer_before ?env ?t1 (Suc 0) = ?t1" by (simp add: apply_updates_def)
  have b1: "timer_before ?env ?t1 (Suc (Suc 0)) = ?t2" using up by (simp add: apply_updates_def)
  have b2: "timer_before ?env ?t1 (Suc (Suc (Suc 0))) = ?t2"
    unfolding timer_before.simps(2) [of ?env ?t1 "Suc (Suc 0)"] b1 by (simp add: apply_updates_def)
  have b3: "timer_before ?env ?t1 (Suc (Suc (Suc (Suc 0)))) = ?t2"
    unfolding timer_before.simps(2) [of ?env ?t1 "Suc (Suc (Suc 0))"] b2 by (simp add: apply_updates_def)
  have d3: "due 1000000 ?env ?t1 3"
    using b3 by (simp add: due_def timer_at_def numeral_3_eq_3)
  have nd: "\<forall>j<3. \<not> due 1000000 ?env ?t1 j"
    using b0 b1 b2 by (simp add: due_def timer_at_def numeral_3_eq_3 less_Suc_eq)
  have at3: "timer_at ?env ?t1 3 = ?t2" using b3 by (simp add: timer_at_def numeral_3_eq_3)
  note th = wait_sets_end_time_polls_and_rebases
      [of "''beats''" ?t 4 2000000000 1000000 ?env "[]",
       THEN conjunct2, THEN conjunct2, THEN conjunct2, THEN mp, OF dur]
  note returns = th [THEN conjunct2, THEN conjunct2, THEN conjunct1, THEN spec, THEN iffD2]
  have "wait 1000000 ?env [] ?t 4 ''beats''
      = Some (Inr (wait_end [] (timer_at ?env (wait_start ?t 2000000000 ''beats'') 3)))"
    by (rule returns, rule exI [of _ 3], unfold ws, intro conjI d3 nd refl)
  then have first: "wait 1000000 ?env [] ?t 4 ''beats''
      = Some (Inr \<lparr>start_time = 3000000000, tempo = 60, end_time = 3000000000, is_beat_waiting = False\<rparr>)"
    unfolding ws at3 by (simp add: wait_end_def Let_def apply_updates_def)
  note tq = wait_sets_end_time_polls_and_rebases
      [of "''beats''" ?t 4 2000000000 1000000 ?quiet "[]",
       THEN conjunct2, THEN conjunct2, THEN conjunct2, THEN mp, OF dur]
  note undisturbed = tq [THEN conjunct2, THEN conjunct2, THEN conjunct2, THEN conjunct2,
       THEN conjunct2, THEN conjunct1, THEN mp]
  have "\<not> snd (?quiet 2) < start_time ?t + 2000000000 - 1000000" by simp
  then have ex: "(\<forall>k. snd (?quiet k) < start_time ?t + 2000000000 - 1000000) = False" by blast
  have "wait 1000000 ?quiet [] ?t 4 ''beats''
      = (if \<forall>k. snd (?quiet k) < start_time ?t + 2000000000 - 1000000 then None
         else Some (Inr (?t\<lparr>end_time := start_time ?t + 2000000000, is_beat_waiting := False,
                                 start_time := start_time ?t + 2000000000\<rparr>)))"
    by (rule undisturbed) simp
  then have second: "wait 1000000 ?quiet [] ?t 4 ''beats''
      = Some (Inr \<lparr>start_time = 2000000000, tempo = 120, end_time = 2000000000, is_beat_waiting = False\<rparr>)"
    unfolding ex by simp
  let ?s1 = "\<lparr>start_time = 0, tempo = 120, end_time = 2000000000, is_beat_waiting = False\<rparr>"
  let ?s2 = "\<lparr>start_time = 0, tempo = 60, end_time = 2000000000, is_beat_waiting = False\<rparr>"
  have sdur: "wait_duration ?t 2 ''seconds'' = Inr (Some 2000000000)"
    by (simp add: wait_duration_def)
  have sws: "wait_start ?t 2000000000 ''seconds'' = ?s1"
    by (simp add: wait_start_def)
  have sup: "apply_updates [?e] ?s1 = ?s2"
    by (simp add: apply_updates_def apply_update_def update_tempo_def)
  have c0: "timer_before ?env ?s1 (Suc 0) = ?s1" by (simp add: apply_updates_def)
  have c1: "timer_before ?env ?s1 (Suc (Suc 0)) = ?s2" using sup by (simp add: apply_updates_def)
  have c2: "timer_before ?env ?s1 (Suc (Suc (Suc 0))) = ?s2"
    unfolding timer_before.simps(2) [of ?env ?s1 "Suc (Suc 0)"] c1 by (simp add: apply_updates_def)
  have sd2: "due 1000000 ?env ?s1 2"
    using c2 by (simp add: due_def timer_at_def numeral_2_eq_2)
  have snd: "\<forall>j<2. \<not> due 1000000 ?env ?s1 j"
    using c0 c1 by (simp add: due_def timer_at_def numeral_2_eq_2 less_Suc_eq)
  have sat2: "timer_at ?env ?s1 2 = ?s2" using c2 by (simp add: timer_at_def numeral_2_eq_2)
  note ts = wait_sets_end_time_polls_and_rebases
      [of "''seconds''" ?t 2 2000000000 1000000 ?env "[]",
       THEN conjunct2, THEN conjunct2, THEN conjunct2, THEN mp, OF sdur]
  note sreturns = ts [THEN conjunct2, THEN conjunct2, THEN conjunct1, THEN spec, THEN iffD2]
  have "wait 1000000 ?env [] ?t 2 ''seconds''
      = Some (Inr (wait_end [] (timer_at ?env (wait_start ?t 2000000000 ''seconds'') 2)))"
    by (rule sreturns, rule exI [of _ 2], unfold sws, intro conjI sd2 snd refl)
  then have third: "wait 1000000 ?env [] ?t 2 ''seconds''
      = Some (Inr \<lparr>start_time = 2000000000, tempo = 60, end_time = 2000000000, is_beat_waiting = False\<rparr>)"
    unfolding sws sat2 by (simp add: wait_end_def Let_def apply_updates_def)
  from first second third show ?thesis by (intro conjI)
qed

lemma ints_of_all_int:
  "list_all is_int rest \<Longrightarrow> ONone \<notin> set rest \<and> sequence (map untuple rest) = Inr rest"
  by (induction rest) (auto simp: is_int_def untuple_def split: osc_arg.splits)

text \<open>
  C9. A note-off event becomes the OSC arguments \<open>[channel, note, 0]\<close>, whatever
  velocity the event carries, while \<open>osc_to_midi\<close> on \<open>/note_off\<close> stores the
  channel and the note only, and no velocity. A note-on event becomes
  \<open>[channel, note, velocity]\<close>, and \<open>/note_on\<close> stores all three.
\<close>

theorem note_off_conversion_is_asymmetric:
  "(map_of d ''note.channel'' = Some c \<and> map_of d ''note.note'' = Some n \<longrightarrow>
      midi_to_osc \<lparr>type = SEQ_EVENT_NOTEOFF, data = d\<rparr>
        = Inr (Some \<lparr>osc.address = ''/note_off'', args = VList [c, n, VInt 0]\<rparr>))
   \<and> (list_all is_int rest \<longrightarrow>
      osc_to_midi ''/note_off'' (OInt ch # OInt k # rest)
        = Inr (Some \<lparr>type = SEQ_EVENT_NOTEOFF,
                       data = [(''note.channel'', VInt ch), (''note.note'', VInt k)]\<rparr>))
   \<and> (map_of d ''note.channel'' = Some c \<and> map_of d ''note.note'' = Some n
        \<and> map_of d ''note.velocity'' = Some v \<longrightarrow>
      midi_to_osc \<lparr>type = SEQ_EVENT_NOTEON, data = d\<rparr>
        = Inr (Some \<lparr>osc.address = ''/note_on'', args = VList [c, n, v]\<rparr>))
   \<and> (list_all is_int rest \<longrightarrow>
      osc_to_midi ''/note_on'' (OInt ch # OInt k # OInt vel # rest)
        = Inr (Some \<lparr>type = SEQ_EVENT_NOTEON,
                       data = [(''note.channel'', VInt ch), (''note.note'', VInt k),
                               (''note.velocity'', VInt vel)]\<rparr>))"
proof -
  have off: "midi_to_osc \<lparr>type = SEQ_EVENT_NOTEOFF, data = d\<rparr>
        = Inr (Some \<lparr>osc.address = ''/note_off'', args = VList [c, n, VInt 0]\<rparr>)"
    if "map_of d ''note.channel'' = Some c" "map_of d ''note.note'' = Some n"
    using that by (simp add: midi_to_osc_def MIDI_TO_OSC_def subscript_def)
  have on: "midi_to_osc \<lparr>type = SEQ_EVENT_NOTEON, data = d\<rparr>
        = Inr (Some \<lparr>osc.address = ''/note_on'', args = VList [c, n, v]\<rparr>)"
    if "map_of d ''note.channel'' = Some c" "map_of d ''note.note'' = Some n"
       "map_of d ''note.velocity'' = Some v"
    using that by (simp add: midi_to_osc_def MIDI_TO_OSC_def subscript_def)
  have back_off: "osc_to_midi ''/note_off'' (OInt ch # OInt k # rest)
        = Inr (Some \<lparr>type = SEQ_EVENT_NOTEOFF,
                       data = [(''note.channel'', VInt ch), (''note.note'', VInt k)]\<rparr>)"
    if "list_all is_int rest"
    using that ints_of_all_int [OF that]
    by (simp add: osc_to_midi_def OSC_TO_MIDI_def untuple_def is_int_def set_data_def item_def)
  have back_on: "osc_to_midi ''/note_on'' (OInt ch # OInt k # OInt vel # rest)
        = Inr (Some \<lparr>type = SEQ_EVENT_NOTEON,
                       data = [(''note.channel'', VInt ch), (''note.note'', VInt k),
                               (''note.velocity'', VInt vel)]\<rparr>)"
    if "list_all is_int rest"
    using that ints_of_all_int [OF that]
    by (simp add: osc_to_midi_def OSC_TO_MIDI_def untuple_def is_int_def set_data_def item_def)
  from off on back_off back_on show ?thesis by blast
qed

theorem note_off_conversion_is_asymmetric_witness:
  "midi_to_osc \<lparr>type = SEQ_EVENT_NOTEOFF,
      data = [(''note.channel'', VInt 1), (''note.note'', VInt 60), (''note.velocity'', VInt 100)]\<rparr>
     = Inr (Some \<lparr>osc.address = ''/note_off'', args = VList [VInt 1, VInt 60, VInt 0]\<rparr>)
   \<and> osc_to_midi ''/note_off'' [OInt 1, OInt 60, OInt 0]
     = Inr (Some \<lparr>type = SEQ_EVENT_NOTEOFF,
                    data = [(''note.channel'', VInt 1), (''note.note'', VInt 60)]\<rparr>)
   \<and> midi_to_osc \<lparr>type = SEQ_EVENT_NOTEON,
      data = [(''note.channel'', VInt 1), (''note.note'', VInt 60), (''note.velocity'', VInt 100)]\<rparr>
     = Inr (Some \<lparr>osc.address = ''/note_on'', args = VList [VInt 1, VInt 60, VInt 100]\<rparr>)
   \<and> osc_to_midi ''/note_on'' [OInt 1, OInt 60, OInt 100]
     = Inr (Some \<lparr>type = SEQ_EVENT_NOTEON,
                    data = [(''note.channel'', VInt 1), (''note.note'', VInt 60),
                            (''note.velocity'', VInt 100)]\<rparr>)"
  using note_off_conversion_is_asymmetric
    [of "[(''note.channel'', VInt 1), (''note.note'', VInt 60), (''note.velocity'', VInt 100)]"
        "VInt 1" "VInt 60" "[OInt 0]" 1 60 "VInt 100" 100]
    note_off_conversion_is_asymmetric
    [of "[(''note.channel'', VInt 1), (''note.note'', VInt 60), (''note.velocity'', VInt 100)]"
        "VInt 1" "VInt 60" "[]" 1 60 "VInt 100" 100]
  by (simp add: is_int_def)

section \<open>Module: proofs\<close>

text \<open>
  C7. \<open>Module.update_animations\<close> removes an idle entry from \<open>self.animations\<close>
  while it iterates over that list, so the entry that follows a removed one is never
  visited: of two idle entries \<open>a\<close>, \<open>b\<close> in a row only \<open>a\<close> is removed in the
  pass, and \<open>b\<close> is still in the list afterwards. The statement that every idle entry is
  removed in the same pass does not hold of the code.
\<close>

theorem update_animations_skips_entry_after_removed_one:
  "a \<noteq> b \<Longrightarrow> animations s = [a, b] \<Longrightarrow>
   map_of (parameters s) a = Some pa \<Longrightarrow> \<not> animate_running pa \<Longrightarrow>
   map_of (parameters s) b = Some pb \<Longrightarrow> \<not> animate_running pb \<Longrightarrow>
   update_animations upd (Module s []) e = Inr (Module (s\<lparr>animations := [b]\<rparr>) [], e)"
  by (simp add: animations_loop.simps [of upd 0] animations_loop.simps [of upd "Suc 0"])

theorem update_animations_skips_entry_after_removed_one_witness:
  "update_animations (\<lambda>now p. (False, p))
     (Module ((example_state [''root'', ''m'']
                 [(''a'', example_parameter ''a''), (''b'', example_parameter ''b'')])
              \<lparr>animations := [''a'', ''b'']\<rparr>) [])
     example_engine
   = Inr (Module ((example_state [''root'', ''m'']
                 [(''a'', example_parameter ''a''), (''b'', example_parameter ''b'')])
              \<lparr>animations := [''b'']\<rparr>) [], example_engine)"
  using update_animations_skips_entry_after_removed_one
    [of "''a''" "''b''" "(example_state [''root'', ''m'']
                 [(''a'', example_parameter ''a''), (''b'', example_parameter ''b'')])
              \<lparr>animations := [''a'', ''b'']\<rparr>" "example_parameter ''a''" "example_parameter ''b''" "\<lambda>now p. (False, p)" example_engine]
  by (simp add: example_state_def example_parameter_def)

text \<open>
  C8. \<open>Module.stop_animate('*')\<close> on a module with a submodule raises
  \<open>AttributeError\<close> at the first submodule, before any animation is stopped (here
  \<open>*\<close> is neither an alias nor a submodule's name, as module names may not hold
  \<open>*\<close>). The statement that the call stops every animation of the subtree and returns
  does not hold of the code.
\<close>

theorem stop_animate_all_raises_with_a_submodule:
  "subs \<noteq> [] \<Longrightarrow> map_of (aliases s) ''*'' = None \<Longrightarrow> ''*'' \<notin> set (map fst subs) \<Longrightarrow>
   stop_animate (Module s subs) [VStr ''*''] = Inl AttributeError"
  by (simp add: stop_animate_def submodule_target_def)

theorem stop_animate_all_raises_with_a_submodule_witness:
  "stop_animate
     (Module ((example_state [''root'', ''m''] [(''a'', (example_parameter ''a'')\<lparr>animate_running := True\<rparr>)])
                \<lparr>animations := [''a'']\<rparr>)
        [(''sub'', Module (example_state [''root'', ''m'', ''sub''] []) [])])
     [VStr ''*'']
   = Inl AttributeError"
  using stop_animate_all_raises_with_a_submodule
    [of "[(''sub'', Module (example_state [''root'', ''m'', ''sub''] []) [])]"
        "(example_state [''root'', ''m''] [(''a'', (example_parameter ''a'')\<lparr>animate_running := True\<rparr>)])
                \<lparr>animations := [''a'']\<rparr>"]
  by (simp add: example_state_def)

lemma map_of_store: "map_of (store k v d) = (map_of d)(k \<mapsto> v)"
  by (simp add: store_def update_conv')

lemma submodule_method_state:
  assumes "submodule_method pm body (Module s subs) par arguments x = Inr (m', x')"
  shows "(submodule_target pm s (map fst subs) arguments = Inr None
            \<and> body (Module s subs) par arguments x = Inr (m', x'))
         \<or> ((\<exists>sel. submodule_target pm s (map fst subs) arguments = Inr (Some sel)) \<and> state m' = s)"
  using assms by (auto split: sum.splits option.splits)

lemma set_body_other_parameter:
  assumes "set_body fs pa (Module s subs) par (VStr k # vs) e = Inr (m', e')" and "k \<noteq> n"
  shows "map_of (parameters (state m')) n = map_of (parameters s) n"
  using assms
  by (auto simp: find_parameter_def Let_def map_of_store set_dirty_def
           split: option.splits if_splits prod.splits)

lemma set_m_other_parameter:
  assumes "set_m m par (VStr k # vs) fs pa e = Inr (m', e')" and "k \<noteq> n"
  shows "map_of (parameters (state m')) n = map_of (parameters (state m)) n"
proof (cases m)
  case (Module s subs)
  from assms(1) have "submodule_method True (set_body fs pa) (Module s subs) par (VStr k # vs) e = Inr (m', e')"
    by (simp add: set_m_def Module)
  from submodule_method_state [OF this] show ?thesis
    using set_body_other_parameter [OF _ assms(2)] Module by auto
qed

lemma reset_name_other_parameter:
  assumes "reset_name m par k e = Inr (m', e')" and "k \<noteq> n"
  shows "map_of (parameters (state m')) n = map_of (parameters (state m)) n"
  using assms set_m_other_parameter [of m par k _ False False e m' e' n]
  by (auto simp: reset_name_def split: option.splits pyval.splits)

lemma reset_name_without_default:
  "map_of (parameters (state m)) n = Some p \<Longrightarrow> default p = VNone \<Longrightarrow> reset_name m par n e = Inr (m, e)"
  by (simp add: reset_name_def)

lemma reset_names_keep:
  assumes "map_of (parameters (state m)) n = Some p" and "default p = VNone"
    and "reset_names ns m par e = Inr (m', e')"
  shows "map_of (parameters (state m')) n = Some p"
  using assms
proof (induction ns arbitrary: m e)
  case Nil
  then show ?case by simp
next
  case (Cons k ns)
  from Cons.prems(3) obtain m1 e1 where
    step: "reset_name m par k e = Inr (m1, e1)" and rest: "reset_names ns m1 par e1 = Inr (m', e')"
    by (auto split: sum.splits)
  have "map_of (parameters (state m1)) n = Some p"
  proof (cases "k = n")
    case True
    then show ?thesis using step reset_name_without_default [OF Cons.prems(1,2), of par e] Cons.prems(1) by simp
  next
    case False
    then show ?thesis using reset_name_other_parameter [OF step False] Cons.prems(1) by simp
  qed
  then show ?case using Cons.IH [OF _ Cons.prems(2) rest] by simp
qed

lemma reset_all_keep:
  assumes "map_of (parameters (state m)) n = Some p" and "default p = VNone"
    and "reset_all m par e = Inr (m', e')"
  shows "map_of (parameters (state m')) n = Some p"
proof (cases m)
  case (Module s subs)
  with assms(3) obtain subs' e1 where
    "reset_names (map fst (parameters s)) (Module s subs') par e1 = Inr (m', e')"
    by (auto split: sum.splits)
  then show ?thesis using reset_names_keep [of "Module s subs'" n p] assms(1,2) Module by simp
qed

text \<open>
  C10. For a parameter of the module whose default is \<open>None\<close>, \<open>Module.reset\<close> with
  the parameter's name changes nothing at all (no \<open>set\<close> is called), and
  \<open>Module.reset\<close> with no name leaves the parameter as it was: its value, its dirty
  flag and its last sent snapshot. A parameter with another default is passed to
  \<open>set\<close> with that default.
\<close>

theorem reset_skips_parameter_without_default:
  "(map_of (parameters (state m)) n = Some p \<and> default p = VNone \<longrightarrow>
      reset m par (Some n) e = Inr (m, e)
      \<and> (\<forall>m' e'. reset m par None e = Inr (m', e') \<longrightarrow> map_of (parameters (state m')) n = Some p))
   \<and> (map_of (parameters (state m)) n = Some p \<and> default p \<noteq> VNone \<longrightarrow>
      reset m par (Some n) e
        = set_m m par (VStr n # (case default p of VList vs \<Rightarrow> vs | v \<Rightarrow> [v])) False False e)"
proof -
  have a: "reset m par (Some n) e = Inr (m, e)"
    if "map_of (parameters (state m)) n = Some p" "default p = VNone"
    using reset_name_without_default [OF that] by (simp add: reset_def)
  have b: "map_of (parameters (state m')) n = Some p"
    if "map_of (parameters (state m)) n = Some p" "default p = VNone"
       "reset m par None e = Inr (m', e')" for m' e'
    using reset_all_keep [OF that(1,2)] that(3) by (simp add: reset_def)
  have c: "reset m par (Some n) e
        = set_m m par (VStr n # (case default p of VList vs \<Rightarrow> vs | v \<Rightarrow> [v])) False False e"
    if "map_of (parameters (state m)) n = Some p" "default p \<noteq> VNone"
    using that by (simp add: reset_def reset_name_def split: pyval.splits)
  from a b c show ?thesis by blast
qed


theorem reset_skips_parameter_without_default_witness:
  "reset (Module (example_state [''root'', ''m'']
             [(''a'', example_parameter ''a''), (''b'', (example_parameter ''b'')\<lparr>default := VInt 5\<rparr>)]) [])
      None None example_engine
    = Inr (Module ((example_state [''root'', ''m'']
             [(''a'', example_parameter ''a''),
              (''b'', (example_parameter ''b'')\<lparr>default := VInt 5, args := [VInt 5], parameter.dirty := True\<rparr>)])
             \<lparr>dirty_parameters := [''b''], module_state.dirty := True\<rparr>) [],
           example_engine\<lparr>dirty_modules := [[''root'', ''m'']]\<rparr>)
   \<and> reset (Module (example_state [''root'', ''m'']
             [(''a'', example_parameter ''a''), (''b'', (example_parameter ''b'')\<lparr>default := VInt 5\<rparr>)]) [])
      None (Some ''a'') example_engine
    = Inr (Module (example_state [''root'', ''m'']
             [(''a'', example_parameter ''a''), (''b'', (example_parameter ''b'')\<lparr>default := VInt 5\<rparr>)]) [],
           example_engine)"
proof -
  let ?m = "Module (example_state [''root'', ''m'']
             [(''a'', example_parameter ''a''), (''b'', (example_parameter ''b'')\<lparr>default := VInt 5\<rparr>)]) []"
  have p: "map_of (parameters (state ?m)) ''a'' = Some (example_parameter ''a'')
           \<and> default (example_parameter ''a'') = VNone"
    by (simp add: example_state_def example_parameter_def)
  have r: "reset ?m None None example_engine
    = Inr (Module ((example_state [''root'', ''m'']
             [(''a'', example_parameter ''a''),
              (''b'', (example_parameter ''b'')\<lparr>default := VInt 5, args := [VInt 5], parameter.dirty := True\<rparr>)])
             \<lparr>dirty_parameters := [''b''], module_state.dirty := True\<rparr>) [],
           example_engine\<lparr>dirty_modules := [[''root'', ''m'']]\<rparr>)"
    by (simp add: reset_def reset_name_def set_m_def submodule_target_def is_pattern_def
          find_parameter_def parameter_set_def set_dirty_def store_def example_state_def
          example_parameter_def example_engine_def Let_def)
  show ?thesis
    using reset_skips_parameter_without_default
      [of ?m "''a''" "example_parameter ''a''" None example_engine] p r
    by simp
qed

lemma parameter_set_stop [simp]:
  "fst (parameter_set vs (stop_animation p)) = fst (parameter_set vs p)"
  "parameter.dirty (snd (parameter_set vs p)) = parameter.dirty p"
  "parameter.dirty (stop_animation p) = parameter.dirty p"
  "parameter.address (stop_animation p) = parameter.address p"
  "parameter.dirty (set_last_sent p) = parameter.dirty p"
  by (simp_all add: parameter_set_def stop_animation_def set_last_sent_def Let_def)

lemma parameter_set_again:
  "fst (parameter_set vs (snd (parameter_set vs p))) = False"
  "fst (parameter_set vs (set_last_sent (snd (parameter_set vs p)))) = False"
  "fst (parameter_set vs ((snd (parameter_set vs p))\<lparr>parameter.dirty := d\<rparr>)) = False"
  by (simp_all add: parameter_set_def set_last_sent_def Let_def)

lemma submodule_target_aliases:
  "aliases s' = aliases s \<Longrightarrow> submodule_target pm s' names arguments = submodule_target pm s names arguments"
  by (simp add: submodule_target_def split: list.splits pyval.splits)

lemma set_body_found:
  assumes p: "map_of (parameters s) n = Some p"
  shows "set_body fs pa (Module s subs) par (VStr n # vs) e
      = (let p2 = snd (parameter_set vs (if animate_running p \<and> \<not> pa then stop_animation p else p)) in
         if fs \<and> truthy (parameter.address p) then
           Inr (Module (s\<lparr>parameters := store n (set_last_sent p2) (parameters s)\<rparr>) subs,
                send s par (parameter.address p2) (get_message_args p2) e)
         else if fst (parameter_set vs p) \<and> \<not> parameter.dirty p then
           Inr (Module (fst (set_dirty (s\<lparr>parameters := store n (p2\<lparr>parameter.dirty := True\<rparr>) (parameters s),
                                  dirty_parameters := dirty_parameters s @ [n]\<rparr>) e)) subs,
                snd (set_dirty (s\<lparr>parameters := store n (p2\<lparr>parameter.dirty := True\<rparr>) (parameters s),
                                  dirty_parameters := dirty_parameters s @ [n]\<rparr>) e))
         else Inr (Module (s\<lparr>parameters := store n p2 (parameters s)\<rparr>) subs, e))"
proof -
  define p1 where "p1 = (if animate_running p \<and> \<not> pa then stop_animation p else p)"
  have p1: "fst (parameter_set vs p1) = fst (parameter_set vs p)"
    "parameter.dirty p1 = parameter.dirty p" "parameter.address p1 = parameter.address p"
    by (simp_all add: p1_def)
  show ?thesis
    using p p1
    by (simp add: find_parameter_def Let_def split_beta p1_def [symmetric])
qed

lemma set_m_local:
  assumes target: "submodule_target True s (map fst subs) (VStr n # vs) = Inr None"
    and p: "map_of (parameters s) n = Some p"
  shows "\<exists>s' e' p'. set_m (Module s subs) par (VStr n # vs) fs pa e = Inr (Module s' subs, e')
           \<and> aliases s' = aliases s
           \<and> map_of (parameters s') n = Some p'
           \<and> fst (parameter_set vs p') = False
           \<and> parameter.dirty p' = (parameter.dirty p \<or> enqueues fs vs p)
           \<and> dirty_parameters s' = (if enqueues fs vs p then dirty_parameters s @ [n] else dirty_parameters s)
           \<and> module_state.dirty s' = (module_state.dirty s \<or> enqueues fs vs p)
           \<and> dirty_modules e' = (if enqueues fs vs p \<and> \<not> module_state.dirty s
                                  then dirty_modules e @ [module_path s] else dirty_modules e)"
proof -
  define p2 where "p2 = snd (parameter_set vs (if animate_running p \<and> \<not> pa then stop_animation p else p))"
  have p2: "parameter.dirty p2 = parameter.dirty p" by (simp add: p2_def)
  have again: "fst (parameter_set vs p2) = False"
    "fst (parameter_set vs (set_last_sent p2)) = False"
    "fst (parameter_set vs (p2\<lparr>parameter.dirty := True\<rparr>)) = False"
    by (simp_all add: p2_def parameter_set_again)
  have body: "set_m (Module s subs) par (VStr n # vs) fs pa e
      = (if fs \<and> truthy (parameter.address p) then
           Inr (Module (s\<lparr>parameters := store n (set_last_sent p2) (parameters s)\<rparr>) subs,
                send s par (parameter.address p2) (get_message_args p2) e)
         else if fst (parameter_set vs p) \<and> \<not> parameter.dirty p then
           Inr (Module (fst (set_dirty (s\<lparr>parameters := store n (p2\<lparr>parameter.dirty := True\<rparr>) (parameters s),
                                  dirty_parameters := dirty_parameters s @ [n]\<rparr>) e)) subs,
                snd (set_dirty (s\<lparr>parameters := store n (p2\<lparr>parameter.dirty := True\<rparr>) (parameters s),
                                  dirty_parameters := dirty_parameters s @ [n]\<rparr>) e))
         else Inr (Module (s\<lparr>parameters := store n p2 (parameters s)\<rparr>) subs, e))"
    using target set_body_found [OF p, of fs pa subs par vs e]
    by (simp add: set_m_def Let_def p2_def)
  show ?thesis
  proof (cases "fs \<and> truthy (parameter.address p)")
    case True
    then have c1: "(fs \<and> truthy (parameter.address p)) = True" by simp
    have "enqueues fs vs p = False" using True by (simp add: enqueues_def)
    then show ?thesis unfolding body c1 using p2 again
      by (simp add: map_of_store send_def split_beta)
  next
    case False
    then have c1: "(fs \<and> truthy (parameter.address p)) = False" by simp
    show ?thesis
    proof (cases "fst (parameter_set vs p) \<and> \<not> parameter.dirty p")
      case True
      then have c2: "(fst (parameter_set vs p) \<and> \<not> parameter.dirty p) = True" by simp
      have "enqueues fs vs p = True" using True False by (simp add: enqueues_def)
      then show ?thesis unfolding body c1 c2 using again
        by (simp add: map_of_store set_dirty_def)
    next
      case nc: False
      then have c2: "(fst (parameter_set vs p) \<and> \<not> parameter.dirty p) = False" by simp
      have "enqueues fs vs p = False" using nc by (auto simp: enqueues_def)
      then show ?thesis unfolding body c1 c2 using p2 again
        by (simp add: map_of_store)
    qed
  qed
qed

lemma buffer_ok_store:
  assumes "buffer_ok s" and "map_of (parameters s) n = Some p"
    and "parameter.dirty p \<longrightarrow> parameter.dirty q"
  shows "buffer_ok (s\<lparr>parameters := store n q (parameters s)\<rparr>)"
  using assms by (auto simp: buffer_ok_def list_all_iff map_of_store split: option.splits)

lemma buffer_ok_enqueue:
  assumes "buffer_ok s" and "map_of (parameters s) n = Some p"
    and "\<not> parameter.dirty p" and "parameter.dirty q"
  shows "buffer_ok (s\<lparr>parameters := store n q (parameters s),
                     dirty_parameters := dirty_parameters s @ [n]\<rparr>)"
  using assms by (auto simp: buffer_ok_def list_all_iff map_of_store split: option.splits)

lemma buffer_ok_set_dirty: "buffer_ok (fst (set_dirty s e)) = buffer_ok s"
  by (simp add: set_dirty_def buffer_ok_def)

lemma set_body_buffer_ok:
  assumes ok: "buffers_ok m" and run: "set_body fs pa m par arguments e = Inr (m', e')"
  shows "buffers_ok m'"
proof (cases m)
  case (Module s subs)
  note m = this
  from ok m have s: "buffer_ok s" and subs: "buffers_ok_submodules subs" by simp_all
  show ?thesis
  proof (cases arguments)
    case Nil
    then show ?thesis using run m by simp
  next
    case (Cons key vs)
    show ?thesis
    proof (cases "find_parameter s key")
      case (Inl err)
      then show ?thesis using run m Cons by simp
    next
      case (Inr found)
      show ?thesis
      proof (cases found)
        case None
        then show ?thesis using run m Cons Inr ok by auto
      next
        case (Some np)
        obtain n p where np: "np = (n, p)" by (cases np)
        from Inr Some np have key: "key = VStr n" and p: "map_of (parameters s) n = Some p"
          by (auto simp: find_parameter_def split: pyval.splits)
        define p2 where "p2 = snd (parameter_set vs (if animate_running p \<and> \<not> pa then stop_animation p else p))"
        have p2: "parameter.dirty p2 = parameter.dirty p" by (simp add: p2_def)
        note body = set_body_found [OF p, of fs pa subs par vs e, unfolded Let_def, folded p2_def]
        from run have r: "set_body fs pa (Module s subs) par (VStr n # vs) e = Inr (m', e')"
          by (simp add: m Cons key)
        note res = r [unfolded body]
        consider (force) "(fs \<and> truthy (parameter.address p)) = True"
          | (enq) "(fs \<and> truthy (parameter.address p)) = False"
              "(fst (parameter_set vs p) \<and> \<not> parameter.dirty p) = True"
          | (same) "(fs \<and> truthy (parameter.address p)) = False"
              "(fst (parameter_set vs p) \<and> \<not> parameter.dirty p) = False"
          by blast
        then show ?thesis
        proof cases
          case force
          then have "m' = Module (s\<lparr>parameters := store n (set_last_sent p2) (parameters s)\<rparr>) subs"
            using res unfolding force by simp
          then show ?thesis using subs buffer_ok_store [OF s p, of "set_last_sent p2"] p2 by simp
        next
          case enq
          then have "m' = Module (fst (set_dirty (s\<lparr>parameters := store n (p2\<lparr>parameter.dirty := True\<rparr>) (parameters s),
                                  dirty_parameters := dirty_parameters s @ [n]\<rparr>) e)) subs"
            using res unfolding enq by simp
          then show ?thesis
            using subs buffer_ok_enqueue [OF s p, of "p2\<lparr>parameter.dirty := True\<rparr>"] enq(2)
            by (simp add: buffer_ok_set_dirty)
        next
          case same
          then have "m' = Module (s\<lparr>parameters := store n p2 (parameters s)\<rparr>) subs"
            using res unfolding same by simp
          then show ?thesis using subs buffer_ok_store [OF s p, of p2] p2 by simp
        qed
      qed
    qed
  qed
qed

lemma submodule_method_buffers_ok:
  fixes body :: "module \<Rightarrow> parent \<Rightarrow> pyval list \<Rightarrow> 'x \<Rightarrow> py_error + module \<times> 'x"
  shows "(\<And>m par arguments x m' x'.
            buffers_ok m \<Longrightarrow> body m par arguments x = Inr (m', x') \<Longrightarrow> buffers_ok m') \<Longrightarrow>
         buffers_ok m \<Longrightarrow> submodule_method pm body m par arguments x = Inr (m', x') \<Longrightarrow> buffers_ok m'"
    and "(\<And>m par arguments x m' x'.
            buffers_ok m \<Longrightarrow> body m par arguments x = Inr (m', x') \<Longrightarrow> buffers_ok m') \<Longrightarrow>
         buffers_ok_submodules subs \<Longrightarrow>
         submodule_method_each pm body sel subs par arguments x = Inr (subs', x') \<Longrightarrow>
         buffers_ok_submodules subs'"
proof (induction pm body m par arguments x and pm body sel subs par arguments x
       arbitrary: m' x' and subs' x'
       rule: submodule_method_submodule_method_each.induct)
  case (1 pm body s subs par arguments x)
  note body = "1.prems"(1) and ok = "1.prems"(2) and run = "1.prems"(3)
  show ?case
  proof (cases "submodule_target pm s (map fst subs) arguments")
    case (Inl err)
    then show ?thesis using run by simp
  next
    case (Inr t)
    show ?thesis
    proof (cases t)
      case None
      then have "body (Module s subs) par arguments x = Inr (m', x')"
        using run Inr by simp
      then show ?thesis using body ok by blast
    next
      case (Some sel)
      with Inr run obtain subs1 where
        each: "submodule_method_each pm body sel subs (as_parent s) (tl arguments) x = Inr (subs1, x')"
        and m': "m' = Module s subs1"
        by (auto split: sum.splits)
      have "buffers_ok_submodules subs1"
        using "1.IH" [OF Inr Some body _ each] ok by simp
      then show ?thesis using m' ok by simp
    qed
  qed
next
  case (2 pm body sel par arguments x)
  then show ?case by simp
next
  case (3 pm body sel n m rest par arguments x)
  note body = "3.prems"(1) and ok = "3.prems"(2) and run = "3.prems"(3)
  show ?case
  proof (cases "sel n")
    case True
    with run obtain m1 x1 rest1 where
      one: "submodule_method pm body m par arguments x = Inr (m1, x1)"
      and more: "submodule_method_each pm body sel rest par arguments x1 = Inr (rest1, x')"
      and subs': "subs' = (n, m1) # rest1"
      by (auto split: sum.splits)
    have "buffers_ok m1" using "3.IH"(1) [OF True body _ one] ok by simp
    moreover have "buffers_ok_submodules rest1"
      using "3.IH"(2) [OF True one refl body _ more] ok by simp
    ultimately show ?thesis using subs' by simp
  next
    case False
    with run obtain rest1 where
      more: "submodule_method_each pm body sel rest par arguments x = Inr (rest1, x')"
      and subs': "subs' = (n, m) # rest1"
      by (auto split: sum.splits)
    have "buffers_ok_submodules rest1"
      using "3.IH"(3) [OF False body _ more] ok by simp
    then show ?thesis using subs' ok by simp
  qed
qed

lemma set_m_buffers_ok:
  "buffers_ok m \<Longrightarrow> set_m m par arguments fs pa e = Inr (m', e') \<Longrightarrow> buffers_ok m'"
  unfolding set_m_def
  by (rule submodule_method_buffers_ok(1) [where body = "set_body fs pa"])
     (auto intro: set_body_buffer_ok)


lemma distinct_count_le_1: "distinct xs \<Longrightarrow> count_list xs k \<le> 1"
  by (induction xs) (auto simp: count_list_0_iff)

lemma buffers_ok_state: "buffers_ok m \<Longrightarrow> buffer_ok (state m)"
  by (cases m) simp

text \<open>
  C1. A call of \<open>Module.set\<close> that reaches a parameter \<open>P\<close> of the module appends
  \<open>P\<close> to the dirty buffer, and marks the module dirty, exactly when the call is not a
  forced send, \<open>Parameter.set\<close> reports a change and \<open>P\<close> is not dirty yet; a second
  call with the same values, whatever its keyword arguments, leaves the buffer, the
  module's dirty flag and the engine's queue of dirty modules as the first call left
  them. Across any call of \<open>set\<close> on a module tree the buffers stay free of
  duplicates: no parameter is in its module's buffer more than once.
\<close>

theorem set_dirties_parameter_at_most_once:
  "(submodule_target True s (map fst subs) (VStr n # vs) = Inr None
      \<and> map_of (parameters s) n = Some p \<longrightarrow>
      (\<exists>s1 e1 s2 e2.
         set_m (Module s subs) par (VStr n # vs) fs pa e = Inr (Module s1 subs, e1)
         \<and> dirty_parameters s1
             = (if enqueues fs vs p then dirty_parameters s @ [n] else dirty_parameters s)
         \<and> module_state.dirty s1 = (module_state.dirty s \<or> enqueues fs vs p)
         \<and> set_m (Module s1 subs) par (VStr n # vs) fs' pa' e1 = Inr (Module s2 subs, e2)
         \<and> dirty_parameters s2 = dirty_parameters s1
         \<and> module_state.dirty s2 = module_state.dirty s1
         \<and> dirty_modules e2 = dirty_modules e1))
   \<and> (buffers_ok m \<and> set_m m par arguments fs pa e = Inr (m', e') \<longrightarrow>
        buffers_ok m' \<and> (\<forall>k. count_list (dirty_parameters (state m')) k \<le> 1))"
proof -
  have twice: "\<exists>s1 e1 s2 e2.
         set_m (Module s subs) par (VStr n # vs) fs pa e = Inr (Module s1 subs, e1)
         \<and> dirty_parameters s1
             = (if enqueues fs vs p then dirty_parameters s @ [n] else dirty_parameters s)
         \<and> module_state.dirty s1 = (module_state.dirty s \<or> enqueues fs vs p)
         \<and> set_m (Module s1 subs) par (VStr n # vs) fs' pa' e1 = Inr (Module s2 subs, e2)
         \<and> dirty_parameters s2 = dirty_parameters s1
         \<and> module_state.dirty s2 = module_state.dirty s1
         \<and> dirty_modules e2 = dirty_modules e1"
    if target: "submodule_target True s (map fst subs) (VStr n # vs) = Inr None"
      and p: "map_of (parameters s) n = Some p"
  proof -
    from set_m_local [OF target p, of par fs pa e] obtain s1 e1 p1 where
      r1: "set_m (Module s subs) par (VStr n # vs) fs pa e = Inr (Module s1 subs, e1)
           \<and> aliases s1 = aliases s
           \<and> map_of (parameters s1) n = Some p1
           \<and> fst (parameter_set vs p1) = False
           \<and> parameter.dirty p1 = (parameter.dirty p \<or> enqueues fs vs p)
           \<and> dirty_parameters s1 = (if enqueues fs vs p then dirty_parameters s @ [n] else dirty_parameters s)
           \<and> module_state.dirty s1 = (module_state.dirty s \<or> enqueues fs vs p)
           \<and> dirty_modules e1 = (if enqueues fs vs p \<and> \<not> module_state.dirty s
                                  then dirty_modules e @ [module_path s] else dirty_modules e)"
      by (elim exE)
    then have first: "set_m (Module s subs) par (VStr n # vs) fs pa e = Inr (Module s1 subs, e1)"
      and al: "aliases s1 = aliases s"
      and p1: "map_of (parameters s1) n = Some p1"
      and same: "fst (parameter_set vs p1) = False"
      and buf1: "dirty_parameters s1
             = (if enqueues fs vs p then dirty_parameters s @ [n] else dirty_parameters s)"
      and d1: "module_state.dirty s1 = (module_state.dirty s \<or> enqueues fs vs p)"
      by simp_all
    have target1: "submodule_target True s1 (map fst subs) (VStr n # vs) = Inr None"
      using target submodule_target_aliases [OF al] by simp
    have no: "enqueues fs' vs p1 = False" using same by (simp add: enqueues_def)
    from set_m_local [OF target1 p1, of par fs' pa' e1] obtain s2 e2 p2 where
      r2: "set_m (Module s1 subs) par (VStr n # vs) fs' pa' e1 = Inr (Module s2 subs, e2)
           \<and> aliases s2 = aliases s1
           \<and> map_of (parameters s2) n = Some p2
           \<and> fst (parameter_set vs p2) = False
           \<and> parameter.dirty p2 = (parameter.dirty p1 \<or> enqueues fs' vs p1)
           \<and> dirty_parameters s2 = (if enqueues fs' vs p1 then dirty_parameters s1 @ [n] else dirty_parameters s1)
           \<and> module_state.dirty s2 = (module_state.dirty s1 \<or> enqueues fs' vs p1)
           \<and> dirty_modules e2 = (if enqueues fs' vs p1 \<and> \<not> module_state.dirty s1
                                  then dirty_modules e1 @ [module_path s1] else dirty_modules e1)"
      by (elim exE)
    then have second: "set_m (Module s1 subs) par (VStr n # vs) fs' pa' e1 = Inr (Module s2 subs, e2)"
      and buf2: "dirty_parameters s2 = dirty_parameters s1"
      and d2: "module_state.dirty s2 = module_state.dirty s1"
      and q2: "dirty_modules e2 = dirty_modules e1"
      by (simp_all add: no)
    have "set_m (Module s subs) par (VStr n # vs) fs pa e = Inr (Module s1 subs, e1)
         \<and> dirty_parameters s1
             = (if enqueues fs vs p then dirty_parameters s @ [n] else dirty_parameters s)
         \<and> module_state.dirty s1 = (module_state.dirty s \<or> enqueues fs vs p)
         \<and> set_m (Module s1 subs) par (VStr n # vs) fs' pa' e1 = Inr (Module s2 subs, e2)
         \<and> dirty_parameters s2 = dirty_parameters s1
         \<and> module_state.dirty s2 = module_state.dirty s1
         \<and> dirty_modules e2 = dirty_modules e1"
      using first buf1 d1 second buf2 d2 q2 by simp
    then show ?thesis by (intro exI)
  qed
  have inv: "buffers_ok m' \<and> (\<forall>k. count_list (dirty_parameters (state m')) k \<le> 1)"
    if "buffers_ok m" "set_m m par arguments fs pa e = Inr (m', e')"
  proof -
    have ok: "buffers_ok m'" using set_m_buffers_ok [OF that] .
    then have d: "distinct (dirty_parameters (state m'))"
      using buffers_ok_state [of m'] by (simp add: buffer_ok_def)
    have "\<forall>k. count_list (dirty_parameters (state m')) k \<le> 1"
      using distinct_count_le_1 [OF d] by (rule allI)
    with ok show ?thesis by (rule conjI)
  qed
  show ?thesis
  proof (intro conjI impI)
    assume "submodule_target True s (map fst subs) (VStr n # vs) = Inr None
      \<and> map_of (parameters s) n = Some p"
    then show "\<exists>s1 e1 s2 e2.
         set_m (Module s subs) par (VStr n # vs) fs pa e = Inr (Module s1 subs, e1)
         \<and> dirty_parameters s1
             = (if enqueues fs vs p then dirty_parameters s @ [n] else dirty_parameters s)
         \<and> module_state.dirty s1 = (module_state.dirty s \<or> enqueues fs vs p)
         \<and> set_m (Module s1 subs) par (VStr n # vs) fs' pa' e1 = Inr (Module s2 subs, e2)
         \<and> dirty_parameters s2 = dirty_parameters s1
         \<and> module_state.dirty s2 = module_state.dirty s1
         \<and> dirty_modules e2 = dirty_modules e1"
      using twice by simp
  next
    assume a: "buffers_ok m \<and> set_m m par arguments fs pa e = Inr (m', e')"
    then show "buffers_ok m'" using inv by simp
  next
    assume a: "buffers_ok m \<and> set_m m par arguments fs pa e = Inr (m', e')"
    then show "\<forall>k. count_list (dirty_parameters (state m')) k \<le> 1" using inv by simp
  qed
qed

theorem set_dirties_parameter_at_most_once_witness:
  "set_m (Module (example_state [''root'', ''m''] [(''a'', example_parameter ''a'')]) []) None
      [VStr ''a'', VInt 5] False False example_engine
    = Inr (Module ((example_state [''root'', ''m'']
                      [(''a'', (example_parameter ''a'')\<lparr>args := [VInt 5], parameter.dirty := True\<rparr>)])
                   \<lparr>dirty_parameters := [''a''], module_state.dirty := True\<rparr>) [],
           example_engine\<lparr>dirty_modules := [[''root'', ''m'']]\<rparr>)
   \<and> set_m (Module ((example_state [''root'', ''m'']
                      [(''a'', (example_parameter ''a'')\<lparr>args := [VInt 5], parameter.dirty := True\<rparr>)])
                   \<lparr>dirty_parameters := [''a''], module_state.dirty := True\<rparr>) []) None
      [VStr ''a'', VInt 5] False False (example_engine\<lparr>dirty_modules := [[''root'', ''m'']]\<rparr>)
    = Inr (Module ((example_state [''root'', ''m'']
                      [(''a'', (example_parameter ''a'')\<lparr>args := [VInt 5], parameter.dirty := True\<rparr>)])
                   \<lparr>dirty_parameters := [''a''], module_state.dirty := True\<rparr>) [],
           example_engine\<lparr>dirty_modules := [[''root'', ''m'']]\<rparr>)
   \<and> buffers_ok (Module ((example_state [''root'', ''m'']
                      [(''a'', (example_parameter ''a'')\<lparr>args := [VInt 5], parameter.dirty := True\<rparr>)])
                   \<lparr>dirty_parameters := [''a''], module_state.dirty := True\<rparr>) [])
   \<and> count_list [''a''] ''a'' \<le> (1::nat)"
proof -
  let ?s = "example_state [''root'', ''m''] [(''a'', example_parameter ''a'')]"
  let ?s1 = "(example_state [''root'', ''m'']
                      [(''a'', (example_parameter ''a'')\<lparr>args := [VInt 5], parameter.dirty := True\<rparr>)])
                   \<lparr>dirty_parameters := [''a''], module_state.dirty := True\<rparr>"
  let ?e1 = "example_engine\<lparr>dirty_modules := [[''root'', ''m'']]\<rparr>"
  have target: "submodule_target True ?s (map fst []) [VStr ''a'', VInt 5] = Inr None"
    by (simp add: submodule_target_def is_pattern_def example_state_def)
  have p: "map_of (parameters ?s) ''a'' = Some (example_parameter ''a'')"
    by (simp add: example_state_def)
  have ok: "buffers_ok (Module ?s [])"
    by (simp add: buffer_ok_def example_state_def)
  have first: "set_m (Module ?s []) None [VStr ''a'', VInt 5] False False example_engine
      = Inr (Module ?s1 [], ?e1)"
    by (simp add: set_m_def submodule_target_def is_pattern_def find_parameter_def
          parameter_set_def set_dirty_def store_def example_state_def example_parameter_def
          example_engine_def Let_def)
  have second: "set_m (Module ?s1 []) None [VStr ''a'', VInt 5] False False ?e1
      = Inr (Module ?s1 [], ?e1)"
    by (simp add: set_m_def submodule_target_def is_pattern_def find_parameter_def
          parameter_set_def set_dirty_def store_def example_state_def example_parameter_def
          example_engine_def Let_def)
  note th = set_dirties_parameter_at_most_once
      [where s = ?s and subs = "[]" and n = "''a''" and vs = "[VInt 5]"
         and p = "example_parameter ''a''" and par = None and fs = False and pa = False
         and e = example_engine and fs' = False and pa' = False and m = "Module ?s []"
         and arguments = "[VStr ''a'', VInt 5]" and m' = "Module ?s1 []" and e' = ?e1]
  note local = mp [OF conjunct1 [OF th] conjI [OF target p]]
  note inv = mp [OF conjunct2 [OF th] conjI [OF ok first]]
  have buf: "dirty_parameters (state (Module ?s1 [])) = [''a'']"
    by (simp add: example_state_def)
  have "buffers_ok (Module ?s1 [])" using inv by (rule conjunct1)
  moreover have "count_list [''a''] ''a'' \<le> (1::nat)"
    using conjunct2 [OF inv] unfolding buf by (rule spec)
  ultimately show ?thesis using first second by (intro conjI)
qed

lemma set_body_mappings:
  assumes "set_body fs pa (Module s subs) par arguments e = Inr (m', e')"
  shows "mappings (state m') = mappings s"
proof (cases arguments)
  case Nil
  then show ?thesis using assms by simp
next
  case (Cons key vs)
  show ?thesis
  proof (cases "find_parameter s key")
    case (Inl err)
    then show ?thesis using assms Cons by simp
  next
    case (Inr found)
    show ?thesis
    proof (cases found)
      case None
      then show ?thesis using assms Cons Inr by auto
    next
      case (Some np)
      obtain n p where np: "np = (n, p)" by (cases np)
      from Inr Some np have key: "key = VStr n" and p: "map_of (parameters s) n = Some p"
        by (auto simp: find_parameter_def split: pyval.splits)
      from assms have "set_body fs pa (Module s subs) par (VStr n # vs) e = Inr (m', e')"
        by (simp add: Cons key)
      note res = this [unfolded set_body_found [OF p]]
      then show ?thesis
        by (auto simp: Let_def set_dirty_def split: if_splits)
    qed
  qed
qed

lemma set_m_mappings:
  assumes "set_m m par arguments fs pa e = Inr (m', e')"
  shows "mappings (state m') = mappings (state m)"
proof (cases m)
  case (Module s subs)
  from assms have "submodule_method True (set_body fs pa) (Module s subs) par arguments e = Inr (m', e')"
    by (simp add: set_m_def Module)
  from submodule_method_state [OF this] show ?thesis
    using set_body_mappings Module by auto
qed

lemma distribute_mappings:
  "distribute m par dv ds e = Inr (m', e') \<Longrightarrow> mappings (state m') = mappings (state m)"
proof (induction ds arbitrary: m e)
  case Nil
  then show ?case by simp
next
  case (Cons d ds)
  obtain i param where d: "d = (i, param)" by (cases d)
  from Cons.prems d obtain val m1 e1 where
    one: "set_m m par (map VStr param @ (case val of VList vs \<Rightarrow> vs | v \<Rightarrow> [v])) False False e = Inr (m1, e1)"
    and rest: "distribute m1 par dv ds e1 = Inr (m', e')"
    by (auto split: sum.splits)
  show ?case using Cons.IH [OF rest] set_m_mappings [OF one] by simp
qed

lemma state_with_mapping [simp]:
  "mappings (state (with_mapping k mp m)) = (mappings (state m))[k := mp]"
  "module_state.dirty (state (with_mapping k mp m)) = module_state.dirty (state m)"
  "submodules (with_mapping k mp m) = submodules m"
  by (simp_all add: with_mapping_def)

lemma update_mapping_result:
  assumes run: "update_mapping m par k e = Inr (m', e')"
  shows "k < length (mappings (state m))"
    and "locked (mappings (state m) ! k) \<Longrightarrow> m' = m \<and> e' = e"
    and "\<not> locked (mappings (state m) ! k) \<Longrightarrow>
         locked (mappings (state m') ! k) = module_state.dirty (state m')
         \<and> dest (mappings (state m') ! k) = dest (mappings (state m) ! k)"
proof -
  show k: "k < length (mappings (state m))"
    using run by (auto simp: update_mapping_def split: if_splits)
  show "m' = m \<and> e' = e" if "locked (mappings (state m) ! k)"
    using run that k by (simp add: update_mapping_def lock_def)
  show "locked (mappings (state m') ! k) = module_state.dirty (state m')
         \<and> dest (mappings (state m') ! k) = dest (mappings (state m) ! k)"
    if free: "\<not> locked (mappings (state m) ! k)"
  proof -
    define mp where "mp = (mappings (state m) ! k)\<lparr>locked := True\<rparr>"
    define m1 where "m1 = with_mapping k mp m"
    have l: "lock (mappings (state m) ! k) = (True, mp)"
      using free by (simp add: lock_def mp_def)
    from run k l obtain dv m2 e2 where
      dist: "distribute m1 par dv (enumerate 0 (dest mp)) e = Inr (m2, e2)"
      and fin: "Inr (m', e') = (if \<not> module_state.dirty (state m2)
                          then Inr (with_mapping k (unlock (mappings (state m2) ! k)) m2, e2)
                          else Inr (m2, e2))"
      by (auto simp: update_mapping_def Let_def m1_def split: sum.splits if_splits)
    have maps: "mappings (state m2) = (mappings (state m))[k := mp]"
      using distribute_mappings [OF dist] by (simp add: m1_def)
    then have at: "mappings (state m2) ! k = mp" using k by simp
    show ?thesis
    proof (cases "module_state.dirty (state m2)")
      case True
      then have "m' = m2" using fin by simp
      then show ?thesis using True at by (simp add: mp_def)
    next
      case False
      then have "m' = with_mapping k (unlock (mappings (state m2) ! k)) m2" using fin by simp
      then show ?thesis using False at k maps by (simp add: mp_def unlock_def)
    qed
  qed
qed

lemma own_destinations:
  assumes "ds \<noteq> []" and "list_all (\<lambda>d. length d = 1) ds"
  shows "list_ex (destination_dirty m) ds = module_state.dirty (state m)"
proof -
  have "destination_dirty m d = module_state.dirty (state m)" if "length d = 1" for d
  proof -
    from that obtain x where "d = [x]" by (cases d) auto
    then show ?thesis by (simp add: destination_dirty_def)
  qed
  then show ?thesis using assms by (cases ds) (auto simp: list_all_iff list_ex_iff)
qed

text \<open>
  C2, as the code has it. When \<open>Module.update_mapping\<close> finds the mapping unlocked
  and returns, the mapping is left locked exactly when the module that owns the mapping
  (the one the method is called on) is dirty after the distribution; for a mapping whose
  destinations are all parameters of that module itself this is the same as a
  destination module being dirty. A mapping found locked is left alone. The end of
  \<open>update_dirty_parameters\<close> unlocks every mapping of the module and clears its dirty
  flag.
\<close>

theorem update_mapping_stays_locked_iff_owner_dirty:
  "(update_mapping m par k e = Inr (m', e') \<and> \<not> locked (mappings (state m) ! k) \<longrightarrow>
      locked (mappings (state m') ! k) = module_state.dirty (state m')
      \<and> (dest (mappings (state m) ! k) \<noteq> []
           \<and> list_all (\<lambda>d. length d = 1) (dest (mappings (state m) ! k)) \<longrightarrow>
         locked (mappings (state m') ! k) = a_destination_is_dirty m' (mappings (state m') ! k)))
   \<and> (update_mapping m par k e = Inr (m', e') \<and> locked (mappings (state m) ! k) \<longrightarrow>
        m' = m \<and> e' = e)
   \<and> list_all (\<lambda>mp. \<not> locked mp) (mappings (unlock_sweep s))
   \<and> \<not> module_state.dirty (unlock_sweep s)"
proof -
  have a: "locked (mappings (state m') ! k) = module_state.dirty (state m')
      \<and> (dest (mappings (state m) ! k) \<noteq> []
           \<and> list_all (\<lambda>d. length d = 1) (dest (mappings (state m) ! k)) \<longrightarrow>
         locked (mappings (state m') ! k) = a_destination_is_dirty m' (mappings (state m') ! k))"
    if "update_mapping m par k e = Inr (m', e')" "\<not> locked (mappings (state m) ! k)"
  proof -
    note r = update_mapping_result(3) [OF that]
    from r have l: "locked (mappings (state m') ! k) = module_state.dirty (state m')"
      and d: "dest (mappings (state m') ! k) = dest (mappings (state m) ! k)"
      by simp_all
    have "a_destination_is_dirty m' (mappings (state m') ! k) = module_state.dirty (state m')"
      if "dest (mappings (state m) ! k) \<noteq> []"
         "list_all (\<lambda>d. length d = 1) (dest (mappings (state m) ! k))"
      unfolding a_destination_is_dirty_def d
      using that by (rule own_destinations)
    with l show ?thesis by simp
  qed
  have b: "m' = m \<and> e' = e"
    if "update_mapping m par k e = Inr (m', e')" "locked (mappings (state m) ! k)"
    using update_mapping_result(2) [OF that] .
  have c: "list_all (\<lambda>mp. \<not> locked mp) (mappings (unlock_sweep s))"
    by (simp add: unlock_sweep_def unlock_def list_all_iff)
  have d: "\<not> module_state.dirty (unlock_sweep s)"
    by (simp add: unlock_sweep_def)
  have A: "update_mapping m par k e = Inr (m', e') \<and> \<not> locked (mappings (state m) ! k) \<longrightarrow>
      locked (mappings (state m') ! k) = module_state.dirty (state m')
      \<and> (dest (mappings (state m) ! k) \<noteq> []
           \<and> list_all (\<lambda>d. length d = 1) (dest (mappings (state m) ! k)) \<longrightarrow>
         locked (mappings (state m') ! k) = a_destination_is_dirty m' (mappings (state m') ! k))"
    using a by (intro impI) (elim conjE)
  have B: "update_mapping m par k e = Inr (m', e') \<and> locked (mappings (state m) ! k) \<longrightarrow>
        m' = m \<and> e' = e"
    using b by (intro impI) (elim conjE)
  from A B c d show ?thesis by (intro conjI)
qed


lemmas example_simps =
  update_mapping_def example_owner_def example_owner_after_def example_local_def
  example_local_after_def example_mapping_def lock_def unlock_def
  with_mapping_def get_def n_args_def dest_value_def item_def
  set_m_def submodule_target_def is_pattern_def find_parameter_def
  parameter_set_def parameter_get_def set_dirty_def store_def example_state_def
  example_parameter_def example_engine_def Let_def as_parent_def

text \<open>
  C2, as the specification states it, fails: with a destination owned by a submodule, the
  submodule is dirty after the distribution and the mapping is unlocked all the same,
  because the module that owns the mapping is not dirty.
\<close>

theorem update_mapping_unlocks_with_dirty_submodule_counterexample:
  "update_mapping example_owner None 0 example_engine
     = Inr (example_owner_after, example_engine\<lparr>dirty_modules := [[''root'', ''m'', ''sub'']]\<rparr>)
   \<and> a_destination_is_dirty example_owner_after (mappings (state example_owner_after) ! 0)
   \<and> \<not> locked (mappings (state example_owner_after) ! 0)"
proof -
  have 1: "update_mapping example_owner None 0 example_engine
     = Inr (example_owner_after, example_engine\<lparr>dirty_modules := [[''root'', ''m'', ''sub'']]\<rparr>)"
    by (simp add: example_simps)
  have 2: "a_destination_is_dirty example_owner_after (mappings (state example_owner_after) ! 0)"
    by (simp add: a_destination_is_dirty_def destination_dirty_def example_owner_after_def
          example_mapping_def example_state_def)
  have 3: "\<not> locked (mappings (state example_owner_after) ! 0)"
    by (simp add: example_owner_after_def example_mapping_def example_state_def)
  from 1 2 3 show ?thesis by (intro conjI)
qed

theorem update_mapping_stays_locked_iff_owner_dirty_witness:
  "update_mapping example_local None 0 example_engine
     = Inr (example_local_after, example_engine\<lparr>dirty_modules := [[''root'', ''m'']]\<rparr>)
   \<and> locked (mappings (state example_local_after) ! 0)
   \<and> module_state.dirty (state example_local_after)
   \<and> a_destination_is_dirty example_local_after (mappings (state example_local_after) ! 0)
   \<and> update_mapping example_local_after None 0 (example_engine\<lparr>dirty_modules := [[''root'', ''m'']]\<rparr>)
     = Inr (example_local_after, example_engine\<lparr>dirty_modules := [[''root'', ''m'']]\<rparr>)
   \<and> update_mapping example_owner None 0 example_engine
     = Inr (example_owner_after, example_engine\<lparr>dirty_modules := [[''root'', ''m'', ''sub'']]\<rparr>)
   \<and> locked (mappings (state example_owner_after) ! 0) = module_state.dirty (state example_owner_after)"
proof -
  let ?e1 = "example_engine\<lparr>dirty_modules := [[''root'', ''m'']]\<rparr>"
  let ?e2 = "example_engine\<lparr>dirty_modules := [[''root'', ''m'', ''sub'']]\<rparr>"
  have r1: "update_mapping example_local None 0 example_engine = Inr (example_local_after, ?e1)"
    by (simp add: example_simps)
  have f1: "\<not> locked (mappings (state example_local) ! 0)"
    by (simp add: example_local_def example_mapping_def example_state_def)
  have own: "dest (mappings (state example_local) ! 0) \<noteq> []
      \<and> list_all (\<lambda>d. length d = 1) (dest (mappings (state example_local) ! 0))"
    by (simp add: example_local_def example_mapping_def example_state_def)
  have d1: "module_state.dirty (state example_local_after)"
    by (simp add: example_local_after_def example_state_def)
  have r2: "update_mapping example_local_after None 0 ?e1 = Inr (example_local_after, ?e1)"
    by (simp add: example_simps)
  have f2: "locked (mappings (state example_local_after) ! 0)"
    by (simp add: example_local_after_def example_mapping_def example_state_def)
  have r3: "update_mapping example_owner None 0 example_engine = Inr (example_owner_after, ?e2)"
    by (simp add: example_simps)
  have f3: "\<not> locked (mappings (state example_owner) ! 0)"
    by (simp add: example_owner_def example_mapping_def example_state_def)
  note t1 = update_mapping_stays_locked_iff_owner_dirty
    [where m = example_local and par = None and k = 0 and e = example_engine
       and m' = example_local_after and e' = ?e1 and s = "state example_local_after"]
  note t3 = update_mapping_stays_locked_iff_owner_dirty
    [where m = example_owner and par = None and k = 0 and e = example_engine
       and m' = example_owner_after and e' = ?e2 and s = "state example_owner_after"]
  note a1 = mp [OF conjunct1 [OF t1] conjI [OF r1 f1]]
  have l1: "locked (mappings (state example_local_after) ! 0)"
    using conjunct1 [OF a1] d1 by simp
  have o1: "a_destination_is_dirty example_local_after (mappings (state example_local_after) ! 0)"
    using mp [OF conjunct2 [OF a1] own] l1 by simp
  note a3 = mp [OF conjunct1 [OF t3] conjI [OF r3 f3]]
  have l3: "locked (mappings (state example_owner_after) ! 0) = module_state.dirty (state example_owner_after)"
    using a3 by (rule conjunct1)
  from r1 l1 d1 o1 r2 r3 l3 show ?thesis by (intro conjI)
qed

lemma store_middle:
  "n \<notin> fst ` set xs \<Longrightarrow> store n v (xs @ (n, w) # ys) = xs @ (n, v) # ys"
  by (induction xs) (auto simp: store_def)

lemma map_of_middle:
  "n \<notin> fst ` set xs \<Longrightarrow> map_of (xs @ (n, w) # ys) n = Some w"
  by (induction xs) auto

lemma settled_set:
  assumes "parameter_settled p"
  shows "parameter_set (parameter.args p) p = (False, p)"
    and "parameter_set (parameter.args p) (stop_animation p) = (False, stop_animation p)"
  using assms by (simp_all add: parameter_settled_def parameter_set_def stop_animation_def)

lemma settled_entry:
  assumes "parameter_settled p"
  shows "state_entry False (n, p) = [VStr n # parameter.args p]"
proof (cases "parameter.args p")
  case Nil
  then show ?thesis by (simp add: state_entry_def parameter_get_def)
next
  case (Cons v vs)
  show ?thesis
  proof (cases vs)
    case Nil
    then show ?thesis using assms Cons
      by (cases v) (simp_all add: state_entry_def parameter_get_def parameter_settled_def)
  next
    case (Cons w ws)
    then show ?thesis using \<open>parameter.args p = v # vs\<close>
      by (simp add: state_entry_def parameter_get_def)
  qed
qed

lemma own_name_target:
  "own_name s names n \<Longrightarrow> submodule_target True s names (VStr n # vs) = Inr None"
  by (auto simp: own_name_def submodule_target_def Let_def split: option.splits)

lemma set_m_own_settled:
  assumes own: "own_name s (map fst subs) n"
    and p: "map_of (parameters s) n = Some p"
    and settled: "parameter_settled p"
  shows "set_m (Module s subs) par (VStr n # parameter.args p) fs False e
     = Inr (Module (s\<lparr>parameters := store n (resent fs p) (parameters s)\<rparr>) subs,
            if fs \<and> truthy (parameter.address p)
            then send s par (parameter.address p) (get_message_args p) e else e)"
proof -
  have body: "set_m (Module s subs) par (VStr n # parameter.args p) fs False e
      = set_body fs False (Module s subs) par (VStr n # parameter.args p) e"
    using own_name_target [OF own] by (simp add: set_m_def)
  have msg: "get_message_args (stop_animation p) = get_message_args p"
    by (simp add: stop_animation_def get_message_args_def)
  show ?thesis
  proof (cases "animate_running p")
    case True
    then show ?thesis
      unfolding body set_body_found [OF p]
      using settled_set [OF settled] msg
      by (simp add: Let_def resent_def)
  next
    case False
    then show ?thesis
      unfolding body set_body_found [OF p]
      using settled_set [OF settled]
      by (simp add: Let_def resent_def)
  qed
qed

lemma set_state_append:
  "set_state m par (xs @ ys) fs e =
     (case set_state m par xs fs e of
        Inl err \<Rightarrow> Inl err
      | Inr (m', e') \<Rightarrow> set_state m' par ys fs e')"
  by (induction m par xs fs e rule: set_state.induct) (auto split: sum.splits)

lemma send_parameters [simp]: "send (s\<lparr>parameters := ps\<rparr>) par a vs e = send s par a vs e"
  by (cases par) (simp_all add: send_def)

lemma resend_parameters [simp]:
  "resend fs (s\<lparr>parameters := ps\<rparr>) par todo e = resend fs s par todo e"
  by (induction todo arbitrary: e) auto

lemma own_name_parameters [simp]:
  "own_name (s\<lparr>parameters := ps\<rparr>) names = own_name s names"
  by (rule ext) (simp add: own_name_def)

lemma set_state_own_parameters:
  assumes "distinct (map fst (done @ todo))"
    and "parameters s = map (\<lambda>(n, p). (n, resent fs p)) done @ todo"
    and "list_all (own_name s (map fst subs)) (map fst todo)"
    and "list_all parameter_settled (map snd todo)"
  shows "set_state (Module s subs) par (map VList (concat (map (state_entry False) todo))) fs e
     = Inr (Module (s\<lparr>parameters := map (\<lambda>(n, p). (n, resent fs p)) (done @ todo)\<rparr>) subs,
            resend fs s par todo e)"
  using assms
proof (induction todo arbitrary: "done" s e)
  case Nil
  then show ?case by simp
next
  case (Cons np todo)
  obtain n p where np: "np = (n, p)" by (cases np)
  let ?g = "\<lambda>(n, p). (n, resent fs p)"
  have fresh: "n \<notin> fst ` set (map ?g done)"
    using Cons.prems(1) np by (auto simp: image_iff)
  have p: "map_of (parameters s) n = Some p"
    using Cons.prems(2) np map_of_middle [OF fresh] by simp
  have own: "own_name s (map fst subs) n" and settled: "parameter_settled p"
    using Cons.prems(3,4) np by simp_all
  define e1 where "e1 = (if fs \<and> truthy (parameter.address p)
            then send s par (parameter.address p) (get_message_args p) e else e)"
  define s1 where "s1 = s\<lparr>parameters := store n (resent fs p) (parameters s)\<rparr>"
  have step: "set_m (Module s subs) par (VStr n # parameter.args p) fs False e = Inr (Module s1 subs, e1)"
    using set_m_own_settled [OF own p settled] by (simp add: s1_def e1_def)
  have ps1: "parameters s1 = map ?g (done @ [(n, p)]) @ todo"
    using Cons.prems(2) np store_middle [OF fresh] by (simp add: s1_def)
  have rest: "set_state (Module s1 subs) par (map VList (concat (map (state_entry False) todo))) fs e1
     = Inr (Module (s1\<lparr>parameters := map ?g ((done @ [(n, p)]) @ todo)\<rparr>) subs,
            resend fs s1 par todo e1)"
  proof (rule Cons.IH)
    show "distinct (map fst ((done @ [(n, p)]) @ todo))" using Cons.prems(1) np by simp
    show "parameters s1 = map ?g (done @ [(n, p)]) @ todo" by (rule ps1)
    show "list_all (own_name s1 (map fst subs)) (map fst todo)"
      using Cons.prems(3) by (simp add: s1_def)
    show "list_all parameter_settled (map snd todo)" using Cons.prems(4) by simp
  qed
  have "set_state (Module s subs) par (map VList (concat (map (state_entry False) (np # todo)))) fs e
      = set_state (Module s1 subs) par (map VList (concat (map (state_entry False) todo))) fs e1"
    using step by (simp add: np settled_entry [OF settled])
  then show ?case using rest by (simp add: np s1_def e1_def)
qed


lemma submodule_method_each_none:
  "n \<notin> fst ` set subs \<Longrightarrow>
   submodule_method_each pm body (\<lambda>k. k = n) subs par arguments x = Inr (subs, x)"
  by (induction subs) auto

lemma submodule_method_each_one:
  assumes "distinct (map fst subs)" and "map_of subs n = Some m"
  shows "submodule_method_each pm body (\<lambda>k. k = n) subs par arguments x
     = (case submodule_method pm body m par arguments x of
          Inl err \<Rightarrow> Inl err
        | Inr (m', x') \<Rightarrow> Inr (store n m' subs, x'))"
  using assms
proof (induction subs)
  case Nil
  then show ?case by simp
next
  case (Cons km subs)
  obtain k m0 where km: "km = (k, m0)" by (cases km)
  show ?case
  proof (cases "k = n")
    case True
    then have m0: "m0 = m" and fresh: "n \<notin> fst ` set subs"
      using Cons.prems km by auto
    show ?thesis
      using True m0 submodule_method_each_none [OF fresh, of pm body par arguments]
      by (auto simp: km store_def split: sum.splits)
  next
    case False
    then have "map_of subs n = Some m" "distinct (map fst subs)"
      using Cons.prems km by auto
    then show ?thesis using Cons.IH False
      by (auto simp: km store_def split: sum.splits)
  qed
qed

lemma set_m_delegated:
  assumes "map_of (aliases s) n = None" and "distinct (map fst subs)" and "map_of subs n = Some m"
  shows "set_m (Module s subs) par (VStr n # xs) fs pa e
     = (case set_m m (as_parent s) xs fs pa e of
          Inl err \<Rightarrow> Inl err
        | Inr (m', e') \<Rightarrow> Inr (Module s (store n m' subs), e'))"
proof -
  have "n \<in> set (map fst subs)" using assms(3) by (metis map_of_SomeD image_eqI fst_conv set_map)
  then have target: "submodule_target True s (map fst subs) (VStr n # xs) = Inr (Some (\<lambda>k. k = n))"
    using assms(1) by (simp add: submodule_target_def)
  show ?thesis
    unfolding set_m_def
    by (simp add: target submodule_method_each_one [OF assms(2,3)] split: sum.splits)
qed

lemma set_state_prefixed:
  assumes "map_of (aliases s) n = None" and "distinct (map fst subs)" and "map_of subs n = Some m"
  shows "set_state (Module s subs) par (map (\<lambda>x. VList (VStr n # x)) xs) fs e
     = (case set_state m (as_parent s) (map VList xs) fs e of
          Inl err \<Rightarrow> Inl err
        | Inr (m', e') \<Rightarrow> Inr (Module s (store n m' subs), e'))"
  using assms(2,3)
proof (induction xs arbitrary: subs m e)
  case Nil
  then show ?case by (simp add: store_def update_triv)
next
  case (Cons x xs)
  show ?case
  proof (cases "set_m m (as_parent s) x fs False e")
    case (Inl err)
    then show ?thesis
      using set_m_delegated [OF assms(1) Cons.prems, of par x fs False e] by simp
  next
    case (Inr r)
    obtain m1 e1 where r: "r = (m1, e1)" by (cases r)
    have step: "set_m (Module s subs) par (VStr n # x) fs False e = Inr (Module s (store n m1 subs), e1)"
      using set_m_delegated [OF assms(1) Cons.prems, of par x fs False e] Inr r by simp
    have d: "distinct (map fst (store n m1 subs))"
      using Cons.prems(1) by (simp add: store_def distinct_update)
    have l: "map_of (store n m1 subs) n = Some m1" by (simp add: map_of_store)
    have "store n m' (store n m1 subs) = store n m' subs" for m'
      by (simp add: store_def)
    then show ?thesis
      using step Inr r Cons.IH [OF d l, of e1]
      by (auto split: sum.splits)
  qed
qed

lemma as_parent_parameters [simp]: "as_parent (s\<lparr>parameters := ps\<rparr>) = as_parent s"
  by (simp add: as_parent_def)

lemma set_state_round_trip:
  "well_formed m \<Longrightarrow>
   set_state m par (map VList (get_state m False)) fs e = Inr (resync fs par m e)"
  and "well_formed_submodules subs \<Longrightarrow> distinct (map fst (done @ subs)) \<Longrightarrow>
   list_all (\<lambda>n. map_of (aliases s) n = None) (map fst subs) \<Longrightarrow>
   set_state (Module s (done @ subs)) par (map VList (get_state_submodules subs False)) fs e
     = Inr (Module s (done @ fst (resync_submodules fs (as_parent s) subs e)),
            snd (resync_submodules fs (as_parent s) subs e))"
proof (induction m and subs arbitrary: par e and "done" s par e
       rule: well_formed_well_formed_submodules.induct)
  case (1 s subs)
  let ?g = "\<lambda>(n, p). (n, resent fs p)"
  define s1 where "s1 = s\<lparr>parameters := map ?g (parameters s)\<rparr>"
  from "1.prems" have names: "names_unambiguous s (map fst subs)"
    and settled: "list_all parameter_settled (map snd (parameters s))"
    and subs: "well_formed_submodules subs" by simp_all
  have own: "set_state (Module s subs) par
        (map VList (concat (map (state_entry False) (parameters s)))) fs e
      = Inr (Module s1 subs, resend fs s par (parameters s) e)"
    using set_state_own_parameters [of "[]" "parameters s" s fs subs par e] names settled
    by (simp add: names_unambiguous_def s1_def)
  have below: "set_state (Module s1 ([] @ subs)) par
        (map VList (get_state_submodules subs False)) fs (resend fs s par (parameters s) e)
      = Inr (Module s1 ([] @ fst (resync_submodules fs (as_parent s1) subs (resend fs s par (parameters s) e))),
             snd (resync_submodules fs (as_parent s1) subs (resend fs s par (parameters s) e)))"
    using names by (intro "1.IH" subs) (simp_all add: names_unambiguous_def s1_def)
  show ?case
    using own below
    by (simp add: state_entries_def set_state_append s1_def Let_def)
next
  case 2
  then show ?case by simp
next
  case (3 n m rest)
  from "3.prems" have m: "well_formed m" and rest: "well_formed_submodules rest"
    and fresh: "n \<notin> fst ` set done" and d: "distinct (map fst (done @ (n, m) # rest))"
    and al: "map_of (aliases s) n = None"
    and als: "list_all (\<lambda>n. map_of (aliases s) n = None) (map fst rest)"
    by auto
  define r where "r = resync fs (as_parent s) m e"
  have at: "map_of (done @ (n, m) # rest) n = Some m" using map_of_middle [OF fresh] .
  have one: "set_state (Module s (done @ (n, m) # rest)) par
        (map (\<lambda>x. VList (VStr n # x)) (get_state m False)) fs e
      = Inr (Module s ((done @ [(n, fst r)]) @ rest), snd r)"
    using set_state_prefixed [OF al d at, of par "get_state m False" fs e]
      "3.IH"(1) [OF m, of "as_parent s" e] store_middle [OF fresh, of "fst r" m rest]
    by (simp add: r_def split_beta)
  have more: "set_state (Module s ((done @ [(n, fst r)]) @ rest)) par
        (map VList (get_state_submodules rest False)) fs (snd r)
      = Inr (Module s ((done @ [(n, fst r)]) @ fst (resync_submodules fs (as_parent s) rest (snd r))),
             snd (resync_submodules fs (as_parent s) rest (snd r)))"
    using d als by (intro "3.IH"(2) rest) simp_all
  show ?case
    using one more
    by (simp add: set_state_append Let_def r_def comp_def)
qed


lemma resent_record:
  "resent fs p = p\<lparr>animate_running := False,
                    last_sent := (if fs \<and> truthy (parameter.address p)
                                  then Some (get_message_args p) else last_sent p)\<rparr>"
  by (simp add: resent_def stop_animation_def set_last_sent_def get_message_args_def Let_def)

lemma state_entry_resent: "state_entry omit (n, resent fs p) = state_entry omit (n, p)"
proof -
  have a: "parameter_get (resent fs p) = parameter_get p"
    by (simp add: resent_record parameter_get_def)
  have b: "parameter.default (resent fs p) = parameter.default p"
    by (simp add: resent_record)
  show ?thesis by (simp add: state_entry_def a b Let_def split: pyval.splits)
qed

lemma state_entries_resent:
  "state_entries (s\<lparr>parameters := map (\<lambda>(n, p). (n, resent fs p)) (parameters s)\<rparr>) omit
     = state_entries s omit"
  by (simp add: state_entries_def comp_def split_beta state_entry_resent)

lemma resync_values:
  "get_state (fst (resync fs par m e)) omit = get_state m omit"
  and "get_state_submodules (fst (resync_submodules fs par subs e)) omit = get_state_submodules subs omit"
  by (induction m and subs arbitrary: par e and par e rule: well_formed_well_formed_submodules.induct)
     (simp_all add: Let_def state_entries_resent)

lemma send_dirty_modules [simp]: "dirty_modules (send s par a vs e) = dirty_modules e"
  by (cases par) (simp_all add: send_def split_beta)

lemma resend_dirty_modules [simp]: "dirty_modules (resend fs s par ps e) = dirty_modules e"
  by (induction ps arbitrary: e) auto

lemma resend_unforced [simp]: "resend False s par ps e = e"
  by (induction ps arbitrary: e) auto

lemma resync_dirty_modules:
  "dirty_modules (snd (resync fs par m e)) = dirty_modules e"
  and "dirty_modules (snd (resync_submodules fs par subs e)) = dirty_modules e"
  by (induction m and subs arbitrary: par e and par e rule: well_formed_well_formed_submodules.induct)
     (simp_all add: Let_def)

lemma resync_unforced:
  "snd (resync False par m e) = e"
  and "snd (resync_submodules False par subs e) = e"
  by (induction m and subs arbitrary: par e and par e rule: well_formed_well_formed_submodules.induct)
     (simp_all add: Let_def)

lemma resent_idle: "\<not> animate_running p \<Longrightarrow> resent False p = p"
  by (simp add: resent_def)

lemma resent_all_idle:
  "\<not> list_ex animate_running (map snd ps) \<Longrightarrow> map (\<lambda>(n, p). (n, resent False p)) ps = ps"
  by (induction ps) (auto simp: resent_idle)

lemma resync_quiet:
  "\<not> animating m \<Longrightarrow> fst (resync False par m e) = m"
  and "\<not> animating_submodules subs \<Longrightarrow> fst (resync_submodules False par subs e) = subs"
  by (induction m and subs arbitrary: par e and par e rule: well_formed_well_formed_submodules.induct)
     (simp_all add: Let_def resent_all_idle resync_unforced)

text \<open>
  C6, as the code has it. On a well-formed module (unambiguous names, settled
  parameters) \<open>set_state(get_state())\<close> returns, and what it returns is \<open>resync\<close>:
  every parameter of the module and of its submodules has the values it had, so the
  state read back is the same; no module is queued as dirty; without \<open>force_send\<close>
  the engine is untouched, and if no animation runs the module is untouched too. What
  does change in a parameter is spelled out by the last conjunct: a running animation is
  stopped, and a forced send to an address is recorded as the last sent snapshot.
\<close>

theorem set_state_of_get_state_keeps_values:
  "(well_formed m \<longrightarrow>
      set_state m par (map VList (get_state m False)) fs e = Inr (resync fs par m e))
   \<and> get_state (fst (resync fs par m e)) False = get_state m False
   \<and> dirty_modules (snd (resync fs par m e)) = dirty_modules e
   \<and> (\<not> fs \<longrightarrow> snd (resync fs par m e) = e)
   \<and> (\<not> fs \<and> \<not> animating m \<longrightarrow> resync fs par m e = (m, e))
   \<and> resent fs p = p\<lparr>animate_running := False,
                        last_sent := (if fs \<and> truthy (parameter.address p)
                                      then Some (get_message_args p) else last_sent p)\<rparr>"
proof -
  have 1: "well_formed m \<longrightarrow>
      set_state m par (map VList (get_state m False)) fs e = Inr (resync fs par m e)"
    using set_state_round_trip(1) by blast
  have 2: "get_state (fst (resync fs par m e)) False = get_state m False"
    by (rule resync_values)
  have 3: "dirty_modules (snd (resync fs par m e)) = dirty_modules e"
    by (rule resync_dirty_modules)
  have 4: "\<not> fs \<longrightarrow> snd (resync fs par m e) = e"
    using resync_unforced(1) by simp
  have 5: "\<not> fs \<and> \<not> animating m \<longrightarrow> resync fs par m e = (m, e)"
    using resync_quiet(1) [of m par e] resync_unforced(1) [of par m e]
    by (auto simp: prod_eq_iff)
  from 1 2 3 4 5 resent_record show ?thesis by (intro conjI)
qed


text \<open>
  C6, as the specification states it, fails: without \<open>force_send\<close>, feeding the state of a
  module with an animated parameter back into \<open>set_state\<close> stops the animation
  (\<open>Module.set\<close> does so unless \<open>preserve_animation\<close> is given), which is a side
  effect other than retransmission.
\<close>

theorem set_state_of_get_state_stops_animation_counterexample:
  "set_state example_animated None (map VList (get_state example_animated False)) False example_engine
     = Inr (Module (example_state [''root'', ''m''] [(''a'', example_parameter ''a'')]) [], example_engine)
   \<and> Module (example_state [''root'', ''m''] [(''a'', example_parameter ''a'')]) [] \<noteq> example_animated"
proof -
  have 1: "set_state example_animated None (map VList (get_state example_animated False)) False example_engine
     = Inr (Module (example_state [''root'', ''m''] [(''a'', example_parameter ''a'')]) [], example_engine)"
    by (simp add: example_animated_def state_entries_def state_entry_def parameter_get_def
          set_m_def submodule_target_def is_pattern_def find_parameter_def parameter_set_def
          stop_animation_def store_def example_state_def example_parameter_def Let_def)
  have 2: "Module (example_state [''root'', ''m''] [(''a'', example_parameter ''a'')]) [] \<noteq> example_animated"
    by (simp add: example_animated_def example_state_def example_parameter_def)
  from 1 2 show ?thesis by (rule conjI)
qed

theorem set_state_of_get_state_keeps_values_witness:
  "well_formed example_owner
   \<and> set_state example_owner None (map VList (get_state example_owner False)) False example_engine
       = Inr (example_owner, example_engine)
   \<and> set_state example_owner None (map VList (get_state example_owner False)) True example_engine
       = Inr (example_owner_resent,
              example_engine\<lparr>message_queue :=
                [[VStr ''osc'', VInt 9000, VStr ''/a'', VInt 0],
                 [VStr ''osc'', VInt 9000, VStr ''/p'', VInt 0]]\<rparr>)"
proof -
  have wf: "well_formed example_owner"
    by (simp add: example_owner_def example_state_def example_parameter_def names_unambiguous_def
          own_name_def is_pattern_def parameter_settled_def)
  have quiet: "\<not> animating example_owner"
    by (simp add: example_owner_def example_state_def example_parameter_def)
  have forced: "resync True None example_owner example_engine
      = (example_owner_resent,
              example_engine\<lparr>message_queue :=
                [[VStr ''osc'', VInt 9000, VStr ''/a'', VInt 0],
                 [VStr ''osc'', VInt 9000, VStr ''/p'', VInt 0]]\<rparr>)"
    by (simp add: example_owner_def example_owner_resent_def example_state_def
          example_parameter_def example_engine_def resent_def set_last_sent_def
          get_message_args_def send_def as_parent_def Let_def)
  note t0 = set_state_of_get_state_keeps_values
    [where m = example_owner and par = None and fs = False and e = example_engine]
  note t1 = set_state_of_get_state_keeps_values
    [where m = example_owner and par = None and fs = True and e = example_engine]
  have a: "set_state example_owner None (map VList (get_state example_owner False)) False example_engine
       = Inr (example_owner, example_engine)"
    using mp [OF conjunct1 [OF t0] wf] t0 quiet by simp
  have b: "set_state example_owner None (map VList (get_state example_owner False)) True example_engine
       = Inr (example_owner_resent,
              example_engine\<lparr>message_queue :=
                [[VStr ''osc'', VInt 9000, VStr ''/a'', VInt 0],
                 [VStr ''osc'', VInt 9000, VStr ''/p'', VInt 0]]\<rparr>)"
    using mp [OF conjunct1 [OF t1] wf] forced by simp
  from wf a b show ?thesis by (intro conjI)
qed

end
